theory Spec2Isabelle
  imports Main "HOL-Library.List_Lexorder" "HOL-Library.Char_ord"
    "HOL-Library.Sublist" "HOL-Library.Multiset"
begin

section \<open>Data model\<close>

text \<open>
  The backend tables of the chat application (the SQL migrations) and the rows the
  client receives from them (the \<^verbatim>\<open>Database\<close> type of \<^verbatim>\<open>lib/supabase.ts\<close>).

  A \<^verbatim>\<open>uuid\<close> is held as its text, the string the client sees; PostgreSQL
  compares two uuids byte by byte, which on the canonical lower-case text is the
  lexicographic order of the characters. A \<^verbatim>\<open>timestamptz\<close> is its number of
  microseconds since the epoch, the resolution of the column; the client's clock
  (\<^verbatim>\<open>Date\<close>) counts milliseconds. A string is the list of its characters, those up
  to U+00FF.
\<close>

type_synonym uuid = string
type_synonym timestamptz = int

text \<open>\<^verbatim>\<open>CREATE TYPE message_status AS ENUM ('sending', 'sent', 'delivered', 'seen')\<close>\<close>

datatype message_status = Sending | Sent | Delivered | Seen

text \<open>The position of a status in the enumeration, which is the order of the life cycle.\<close>

fun status_rank :: "message_status \<Rightarrow> nat" where
  "status_rank Sending = 0"
| "status_rank Sent = 1"
| "status_rank Delivered = 2"
| "status_rank Seen = 3"

text \<open>
  A row of the \<^verbatim>\<open>messages\<close> table. The type of the \<^verbatim>\<open>id\<close> column is a parameter:
  the table holds uuids, the client's list also holds temporary ids (below).
  Nullable columns are options. \<^verbatim>\<open>created_at\<close> has the default \<^verbatim>\<open>now()\<close> and no
  insert of the code writes it; it is never null, as in the client's \<^verbatim>\<open>Row\<close> type
  (\<^verbatim>\<open>created_at: string\<close>).
\<close>

record 'i message =
  msg_id :: 'i
  content :: string
  user_id :: uuid
  recipient_id :: "uuid option"
  conversation_id :: "uuid option"
  created_at :: timestamptz
  sent_at :: "timestamptz option"
  delivered_at :: "timestamptz option"
  seen_at :: "timestamptz option"
  status :: message_status

text \<open>
  A row of the \<^verbatim>\<open>profiles\<close> table. The three columns a message is joined with
  (\<^verbatim>\<open>user_profile:profiles!user_id (username, full_name, avatar_url)\<close>) come first.
\<close>

record profile_fields =
  username :: string
  full_name :: "string option"
  avatar_url :: "string option"

record profile = profile_fields +
  profile_id :: uuid
  profile_created_at :: "timestamptz option"
  last_seen :: "timestamptz option"

text \<open>A row of the \<^verbatim>\<open>conversations\<close> table.\<close>

record conversation =
  conv_id :: uuid
  user1_id :: uuid
  user2_id :: uuid
  conv_created_at :: timestamptz
  updated_at :: timestamptz

section \<open>Server-side procedures\<close>

subsection \<open>\<^verbatim>\<open>mark_messages_as_seen(sender_id, viewer_id)\<close>\<close>

text \<open>
  \<^verbatim>\<open>UPDATE messages SET seen_at = now(), status = 'seen'
  WHERE user_id = sender_id AND recipient_id = viewer_id AND seen_at IS NULL\<close>

  The table is the list of its rows; \<open>now\<close> is the value of \<^verbatim>\<open>now()\<close> in the
  transaction. A \<^verbatim>\<open>NULL\<close> recipient never equals \<open>viewer_id\<close>.
\<close>

definition seen_target :: "uuid \<Rightarrow> uuid \<Rightarrow> ('i, 'a) message_scheme \<Rightarrow> bool" where
  "seen_target sender_id viewer_id m \<longleftrightarrow>
     user_id m = sender_id \<and> recipient_id m = Some viewer_id \<and> seen_at m = None"

definition mark_messages_as_seen ::
  "timestamptz \<Rightarrow> uuid \<Rightarrow> uuid \<Rightarrow> ('i, 'a) message_scheme list \<Rightarrow> ('i, 'a) message_scheme list" where
  "mark_messages_as_seen now sender_id viewer_id messages =
     map (\<lambda>m. if seen_target sender_id viewer_id m
               then m\<lparr>seen_at := Some now, status := Seen\<rparr>
               else m) messages"

subsection \<open>\<^verbatim>\<open>mark_messages_as_delivered(p_recipient_id)\<close>\<close>

text \<open>
  The definition in force, that of the later migration (it drops the first one, whose
  parameter had the name of the column):
  \<^verbatim>\<open>UPDATE messages SET status = 'delivered', delivered_at = now()
  WHERE messages.recipient_id = p_recipient_id AND messages.status = 'sent'
    AND messages.delivered_at IS NULL\<close>
\<close>

definition delivered_target :: "uuid \<Rightarrow> ('i, 'a) message_scheme \<Rightarrow> bool" where
  "delivered_target p_recipient_id m \<longleftrightarrow>
     recipient_id m = Some p_recipient_id \<and> status m = Sent \<and> delivered_at m = None"

definition mark_messages_as_delivered ::
  "timestamptz \<Rightarrow> uuid \<Rightarrow> ('i, 'a) message_scheme list \<Rightarrow> ('i, 'a) message_scheme list" where
  "mark_messages_as_delivered now p_recipient_id messages =
     map (\<lambda>m. if delivered_target p_recipient_id m
               then m\<lparr>status := Delivered, delivered_at := Some now\<rparr>
               else m) messages"

subsection \<open>\<^verbatim>\<open>get_or_create_conversation(user1, user2)\<close>\<close>

text \<open>
  The function orders the pair, selects the id of the row of that ordered pair, and
  inserts a row when the select found none. \<open>new_id\<close> is the value
  \<^verbatim>\<open>gen_random_uuid()\<close> gives the inserted row and \<open>now\<close> its two timestamps.
  The result is the returned id and the table afterwards.
\<close>

definition ordered_pair :: "uuid \<Rightarrow> uuid \<Rightarrow> uuid \<times> uuid" where
  "ordered_pair user1 user2 = (if user1 < user2 then (user1, user2) else (user2, user1))"

definition get_or_create_conversation ::
  "uuid \<Rightarrow> timestamptz \<Rightarrow> uuid \<Rightarrow> uuid \<Rightarrow> conversation list \<Rightarrow> uuid \<times> conversation list" where
  "get_or_create_conversation new_id now user1 user2 conversations =
     (let (min_user, max_user) = ordered_pair user1 user2 in
      case find (\<lambda>c. user1_id c = min_user \<and> user2_id c = max_user) conversations of
        Some c \<Rightarrow> (conv_id c, conversations)
      | None \<Rightarrow>
          (new_id,
           conversations @
             [\<lparr>conv_id = new_id, user1_id = min_user, user2_id = max_user,
               conv_created_at = now, updated_at = now\<rparr>]))"

text \<open>The rows of the table that join the two users, in either column order.\<close>

definition between :: "uuid \<Rightarrow> uuid \<Rightarrow> conversation \<Rightarrow> bool" where
  "between a b c \<longleftrightarrow>
     (user1_id c = a \<and> user2_id c = b) \<or> (user1_id c = b \<and> user2_id c = a)"

text \<open>
  What holds of a table that only this function fills: every row is stored
  smaller-id-first, and no ordered pair occurs twice (the table's
  \<^verbatim>\<open>UNIQUE(user1_id, user2_id)\<close>).
\<close>

definition canonical :: "conversation list \<Rightarrow> bool" where
  "canonical conversations \<longleftrightarrow>
     list_all (\<lambda>c. user1_id c \<le> user2_id c) conversations \<and>
     distinct (map (\<lambda>c. (user1_id c, user2_id c)) conversations)"

subsection \<open>Inserting a message: the \<^verbatim>\<open>auto_mark_delivered\<close> trigger\<close>

text \<open>
  The columns the client's insert supplies (\<^verbatim>\<open>sendMessage\<close>); the table's defaults
  fill the rest: \<^verbatim>\<open>id\<close> by \<^verbatim>\<open>gen_random_uuid()\<close>, \<^verbatim>\<open>created_at\<close> by \<^verbatim>\<open>now()\<close>,
  \<^verbatim>\<open>delivered_at\<close> and \<^verbatim>\<open>seen_at\<close> by \<^verbatim>\<open>NULL\<close>.
\<close>

record insert_payload =
  ins_content :: string
  ins_user_id :: uuid
  ins_recipient_id :: "uuid option"
  ins_conversation_id :: "uuid option"
  ins_status :: message_status
  ins_sent_at :: "timestamptz option"

definition new_row :: "uuid \<Rightarrow> timestamptz \<Rightarrow> insert_payload \<Rightarrow> uuid message" where
  "new_row new_id now p =
     \<lparr>msg_id = new_id, content = ins_content p, user_id = ins_user_id p,
      recipient_id = ins_recipient_id p, conversation_id = ins_conversation_id p,
      created_at = now, sent_at = ins_sent_at p, delivered_at = None, seen_at = None,
      status = ins_status p\<rparr>"

text \<open>\<^verbatim>\<open>interval '5 minutes'\<close>, in microseconds.\<close>

definition five_minutes :: int where
  "five_minutes = 5 * 60 * 1000 * 1000"

text \<open>
  The \<^verbatim>\<open>BEFORE INSERT\<close> trigger: when the recipient's profile was active in the last
  five minutes the row is stored as delivered. A \<^verbatim>\<open>NULL\<close> \<^verbatim>\<open>last_seen\<close> compares
  as not recent.
\<close>

definition recently_active :: "timestamptz \<Rightarrow> uuid option \<Rightarrow> profile \<Rightarrow> bool" where
  "recently_active now recipient p \<longleftrightarrow>
     Some (profile_id p) = recipient \<and>
     (case last_seen p of None \<Rightarrow> False | Some t \<Rightarrow> t > now - five_minutes)"

definition auto_mark_delivered :: "profile list \<Rightarrow> timestamptz \<Rightarrow> uuid message \<Rightarrow> uuid message" where
  "auto_mark_delivered profiles now NEW =
     (if list_ex (recently_active now (recipient_id NEW)) profiles
      then NEW\<lparr>delivered_at := Some now, status := Delivered\<rparr>
      else NEW)"

text \<open>The row the insert stores and returns.\<close>

definition inserted_row :: "profile list \<Rightarrow> uuid \<Rightarrow> timestamptz \<Rightarrow> insert_payload \<Rightarrow> uuid message" where
  "inserted_row profiles new_id now p = auto_mark_delivered profiles now (new_row new_id now p)"

subsection \<open>The life of the \<^verbatim>\<open>messages\<close> table\<close>

text \<open>
  One step of the table: a call of one of the two procedures, or the insert of a
  message sent by a client (status \<^verbatim>\<open>'sent'\<close>) under the primary key's fresh id.
\<close>

inductive db_step :: "profile list \<Rightarrow> uuid message list \<Rightarrow> uuid message list \<Rightarrow> bool"
  for profiles :: "profile list" where
  seen: "db_step profiles messages (mark_messages_as_seen now sender_id viewer_id messages)"
| delivered: "db_step profiles messages (mark_messages_as_delivered now recipient messages)"
| insert: "new_id \<notin> msg_id ` set messages \<Longrightarrow> ins_status p = Sent \<Longrightarrow>
     db_step profiles messages (messages @ [inserted_row profiles new_id now p])"

text \<open>The status the table holds for a message id.\<close>

definition status_of :: "('i, 'a) message_scheme list \<Rightarrow> 'i \<Rightarrow> message_status option" where
  "status_of messages i = map_option status (find (\<lambda>m. msg_id m = i) messages)"

text \<open>A row for the examples: the columns they vary, the others empty.\<close>

definition example_row ::
  "uuid \<Rightarrow> uuid \<Rightarrow> uuid option \<Rightarrow> timestamptz \<Rightarrow> message_status \<Rightarrow> uuid message" where
  "example_row i sender recipient t st =
     \<lparr>msg_id = i, content = ''hi'', user_id = sender, recipient_id = recipient,
      conversation_id = None, created_at = t, sent_at = Some t, delivered_at = None,
      seen_at = None, status = st\<rparr>"

section \<open>The client's message store (\<^verbatim>\<open>useMessages\<close>)\<close>

text \<open>
  The \<^verbatim>\<open>id\<close> of a message in the client's list is a string: a uuid of the table, or
  \<^verbatim>\<open>temp-${Date.now()}\<close> for an optimistic placeholder. A uuid never starts with
  \<^verbatim>\<open>temp-\<close>, so the two kinds are kept apart by a constructor.
\<close>

datatype ident = Uuid uuid | Temp int

text \<open>
  The client's \<^verbatim>\<open>Message\<close>: a row and the sender's profile fields it was joined
  with (\<^verbatim>\<open>null\<close> when the join finds no profile).
\<close>

record 'i Message = "'i message" +
  user_profile :: "profile_fields option"

text \<open>What a call of the supabase client resolves to: \<^verbatim>\<open>{ data, error }\<close>.\<close>

datatype 'a response = Response (data: "'a option") (error: "string option")

text \<open>The select's join, and the row as the client receives it.\<close>

definition joined :: "profile list \<Rightarrow> uuid message \<Rightarrow> ident Message" where
  "joined profiles m =
     \<lparr>msg_id = Uuid (msg_id m), content = content m, user_id = user_id m,
      recipient_id = recipient_id m, conversation_id = conversation_id m,
      created_at = created_at m, sent_at = sent_at m, delivered_at = delivered_at m,
      seen_at = seen_at m, status = status m,
      user_profile =
        map_option (\<lambda>p. \<lparr>username = username p, full_name = full_name p, avatar_url = avatar_url p\<rparr>)
          (find (\<lambda>p. profile_id p = user_id m) profiles)\<rparr>"

text \<open>
  A value JavaScript reads as false is \<^verbatim>\<open>null\<close>, \<^verbatim>\<open>undefined\<close> or the empty
  string; \<^verbatim>\<open>a || b\<close> is \<open>a\<close> unless \<open>a\<close> is such a value.
\<close>

definition truthy :: "string option \<Rightarrow> bool" where
  "truthy v \<longleftrightarrow> v \<noteq> None \<and> v \<noteq> Some []"

definition js_or :: "string option \<Rightarrow> string option \<Rightarrow> string option" where
  "js_or a b = (if truthy a then a else b)"

text \<open>The same with a string literal on the right: the result is a string.\<close>

definition or_default :: "string option \<Rightarrow> string \<Rightarrow> string" where
  "or_default a b = (case a of None \<Rightarrow> b | Some v \<Rightarrow> if v = [] then b else v)"

subsection \<open>Sorting by creation time\<close>

text \<open>
  \<^verbatim>\<open>new Date(m.created_at || '').getTime()\<close>: the creation time in milliseconds, the
  microseconds of the column cut off. The column is never null, so the left side of
  \<^verbatim>\<open>||\<close> is taken and the time is a number.
\<close>

definition getTime :: "('i, 'a) message_scheme \<Rightarrow> int" where
  "getTime m = created_at m div 1000"

text \<open>The comparator of the sort, \<^verbatim>\<open>getTime(a) - getTime(b)\<close>.\<close>

definition by_created_at :: "('i, 'a) message_scheme \<Rightarrow> ('i, 'a) message_scheme \<Rightarrow> int" where
  "by_created_at a b = getTime a - getTime b"

text \<open>
  \<^verbatim>\<open>Array.prototype.sort(comparefn)\<close>. The language makes the sort stable. With a
  consistent comparator every stable sort returns the same list; the model sorts by
  insertion, the element going before the first one that does not compare below it.
\<close>

fun insert_sorted :: "('a \<Rightarrow> 'a \<Rightarrow> int) \<Rightarrow> 'a \<Rightarrow> 'a list \<Rightarrow> 'a list" where
  "insert_sorted comparefn x [] = [x]"
| "insert_sorted comparefn x (y # ys) =
     (if comparefn x y \<le> 0 then x # y # ys
      else y # insert_sorted comparefn x ys)"

definition js_sort :: "('a \<Rightarrow> 'a \<Rightarrow> int) \<Rightarrow> 'a list \<Rightarrow> 'a list" where
  "js_sort comparefn xs = foldr (insert_sorted comparefn) xs []"

subsection \<open>The realtime handlers\<close>

text \<open>
  \<^verbatim>\<open>isRelevantMessage\<close>, the same test in both handlers. \<open>currentUser_id\<close> is
  \<^verbatim>\<open>currentUser.id\<close>; a \<^verbatim>\<open>null\<close> recipient equals no id.
\<close>

definition isRelevantMessage :: "uuid \<Rightarrow> uuid \<Rightarrow> ('i, 'a) message_scheme \<Rightarrow> bool" where
  "isRelevantMessage currentUser_id recipientId newMessage \<longleftrightarrow>
     (user_id newMessage = currentUser_id \<and> recipient_id newMessage = Some recipientId) \<or>
     (user_id newMessage = recipientId \<and> recipient_id newMessage = Some currentUser_id)"

text \<open>The state update of the insert handler, \<^verbatim>\<open>setMessages(prev => ...)\<close>.\<close>

definition add_message :: "ident Message \<Rightarrow> ident Message list \<Rightarrow> ident Message list" where
  "add_message d prev =
     (if list_ex (\<lambda>msg. msg_id msg = msg_id d) prev then prev
      else js_sort by_created_at (prev @ [d]))"

text \<open>
  The \<^verbatim>\<open>INSERT\<close> handler. \<open>newMessage\<close> is \<^verbatim>\<open>payload.new\<close>, \<open>resp\<close> what the
  select of that one message resolves to. The result is the list, and whether
  \<^verbatim>\<open>markMessagesAsSeen\<close> was scheduled for one second later.
\<close>

definition on_insert ::
  "uuid \<Rightarrow> uuid \<Rightarrow> uuid message \<Rightarrow> ident Message response \<Rightarrow> ident Message list
     \<Rightarrow> ident Message list \<times> bool" where
  "on_insert currentUser_id recipientId newMessage resp prev =
     (if isRelevantMessage currentUser_id recipientId newMessage then
        (case (error resp, data resp) of
           (None, Some d) \<Rightarrow> (add_message d prev, user_id newMessage = recipientId)
         | _ \<Rightarrow> (prev, False))
      else (prev, False))"

text \<open>The \<^verbatim>\<open>UPDATE\<close> handler: the refreshed record replaces the entries of its id.\<close>

definition on_update ::
  "uuid \<Rightarrow> uuid \<Rightarrow> uuid message \<Rightarrow> ident Message response \<Rightarrow> ident Message list
     \<Rightarrow> ident Message list" where
  "on_update currentUser_id recipientId updatedMessage resp prev =
     (if isRelevantMessage currentUser_id recipientId updatedMessage then
        (case (error resp, data resp) of
           (None, Some d) \<Rightarrow> map (\<lambda>msg. if msg_id msg = msg_id d then d else msg) prev
         | _ \<Rightarrow> prev)
      else prev)"

text \<open>An event of the feed, as the store's two handlers receive it.\<close>

datatype event = Insert "uuid message" | Update "uuid message"

fun on_event ::
  "uuid \<Rightarrow> uuid \<Rightarrow> event \<Rightarrow> ident Message response \<Rightarrow> ident Message list \<Rightarrow> ident Message list" where
  "on_event currentUser_id recipientId (Insert newMessage) resp prev =
     fst (on_insert currentUser_id recipientId newMessage resp prev)"
| "on_event currentUser_id recipientId (Update updatedMessage) resp prev =
     on_update currentUser_id recipientId updatedMessage resp prev"

subsection \<open>Loading the history\<close>

text \<open>
  The query \<^verbatim>\<open>fetchMessages\<close> builds, as the backend answers it:
  \<^verbatim>\<open>.or(and(user_id.eq.me,recipient_id.eq.peer),and(user_id.eq.peer,recipient_id.eq.me))\<close>,
  \<^verbatim>\<open>.order('created_at', { ascending: true })\<close>, \<^verbatim>\<open>.limit(100)\<close>, each row joined
  with its sender's profile. The backend orders by the column itself, to the
  microsecond; rows of the same creation time, whose order it leaves open, come in
  the order of the table.
\<close>

definition thread_filter :: "uuid \<Rightarrow> uuid \<Rightarrow> ('i, 'a) message_scheme \<Rightarrow> bool" where
  "thread_filter currentUser_id recipientId m \<longleftrightarrow>
     (user_id m = currentUser_id \<and> recipient_id m = Some recipientId) \<or>
     (user_id m = recipientId \<and> recipient_id m = Some currentUser_id)"

definition select_thread :: "uuid \<Rightarrow> uuid \<Rightarrow> uuid message list \<Rightarrow> uuid message list" where
  "select_thread currentUser_id recipientId rows =
     take 100 (sort_key created_at
       (filter (thread_filter currentUser_id recipientId) rows))"

text \<open>The state of the hook: \<^verbatim>\<open>messages\<close> and \<^verbatim>\<open>loading\<close>.\<close>

record store =
  messages :: "ident Message list"
  loading :: bool

text \<open>
  \<^verbatim>\<open>fetchMessages\<close>, given what the query resolves to. \<open>recipientId\<close> is the hook's
  optional argument, \<open>currentUser\<close> the id of the signed-in user, if any.
\<close>

definition fetchMessages ::
  "uuid option \<Rightarrow> uuid option \<Rightarrow> ident Message list response \<Rightarrow> store \<Rightarrow> store" where
  "fetchMessages recipientId currentUser resp st =
     (if \<not> truthy recipientId \<or> currentUser = None then st
      else (case error resp of
              Some e \<Rightarrow> st\<lparr>messages := [], loading := False\<rparr>
            | None \<Rightarrow>
                st\<lparr>messages := (case data resp of Some d \<Rightarrow> d | None \<Rightarrow> []),
                   loading := False\<rparr>))"

text \<open>Loading the history of a thread from a table: the query, then the state update.\<close>

definition load_history ::
  "uuid \<Rightarrow> uuid \<Rightarrow> profile list \<Rightarrow> uuid message list \<Rightarrow> store \<Rightarrow> store" where
  "load_history currentUser_id recipientId profiles rows st =
     fetchMessages (Some recipientId) (Some currentUser_id)
       (Response (Some (map (joined profiles) (select_thread currentUser_id recipientId rows))) None)
       st"

subsection \<open>The requests the hook sends\<close>

datatype request =
    Select_messages uuid uuid
  | Rpc_mark_messages_as_seen uuid uuid
  | Rpc_mark_messages_as_delivered uuid
  | Rpc_get_or_create_conversation uuid uuid
  | Select_profile uuid
  | Insert_message insert_payload
  | Update_last_seen uuid
  | Subscribe_messages

text \<open>
  The request of each function of the hook, behind the function's own guard.
  \<^verbatim>\<open>Select_messages\<close> carries the current user and the recipient,
  \<^verbatim>\<open>Rpc_mark_messages_as_seen\<close> its \<^verbatim>\<open>sender_id\<close> and \<^verbatim>\<open>viewer_id\<close>.
\<close>

definition fetchMessages_request :: "uuid option \<Rightarrow> uuid option \<Rightarrow> request list" where
  "fetchMessages_request recipientId currentUser =
     (case (recipientId, currentUser) of
        (Some r, Some u) \<Rightarrow> if r = [] then [] else [Select_messages u r]
      | _ \<Rightarrow> [])"

definition markMessagesAsSeen :: "uuid option \<Rightarrow> uuid option \<Rightarrow> request list" where
  "markMessagesAsSeen recipientId currentUser =
     (case (recipientId, currentUser) of
        (Some r, Some u) \<Rightarrow> if r = [] then [] else [Rpc_mark_messages_as_seen r u]
      | _ \<Rightarrow> [])"

definition markMessagesAsDelivered :: "uuid option \<Rightarrow> request list" where
  "markMessagesAsDelivered currentUser =
     (case currentUser of Some u \<Rightarrow> [Rpc_mark_messages_as_delivered u] | None \<Rightarrow> [])"

text \<open>
  The effect that runs when the selected peer, the user or the auth loading flag
  changes: the state it sets at once and the requests it sends.
\<close>

definition useMessages_effect ::
  "uuid option \<Rightarrow> uuid option \<Rightarrow> bool \<Rightarrow> store \<Rightarrow> store \<times> request list" where
  "useMessages_effect recipientId currentUser authLoading st =
     (if \<not> truthy recipientId then (st\<lparr>messages := [], loading := False\<rparr>, [])
      else if authLoading \<or> currentUser = None then (st\<lparr>loading := True\<rparr>, [])
      else (st\<lparr>loading := True\<rparr>,
            fetchMessages_request recipientId currentUser @
            markMessagesAsSeen recipientId currentUser @
            [Subscribe_messages]))"

subsection \<open>Sending a message\<close>

text \<open>
  What \<^verbatim>\<open>sendMessage\<close> reads from outside while it runs: the profile select, the
  clock in milliseconds (\<^verbatim>\<open>Date.now()\<close> for the temporary id, \<^verbatim>\<open>new Date()\<close> for
  the placeholder's \<^verbatim>\<open>created_at\<close> and for the payload's \<^verbatim>\<open>sent_at\<close>), the
  conversation procedure and the insert.
\<close>

record send_env =
  profile_resp :: "profile_fields response"
  id_clock :: int
  created_clock :: int
  sent_clock :: int
  conversation_resp :: "uuid response"
  insert_resp :: "insert_payload \<Rightarrow> ident Message response"

definition optimisticMessage :: "string \<Rightarrow> uuid \<Rightarrow> uuid \<Rightarrow> send_env \<Rightarrow> ident Message" where
  "optimisticMessage body userId recipientId env =
     (let currentUserProfile = data (profile_resp env) in
      \<lparr>msg_id = Temp (id_clock env), content = body, user_id = userId,
       recipient_id = Some recipientId, conversation_id = None,
       created_at = 1000 * created_clock env, sent_at = None, delivered_at = None,
       seen_at = None, status = Sending,
       user_profile = Some
         \<lparr>username = or_default (map_option username currentUserProfile) ''user'',
          full_name = js_or (Option.bind currentUserProfile full_name) None,
          avatar_url = js_or (Option.bind currentUserProfile avatar_url) None\<rparr>\<rparr>)"

definition send_payload :: "string \<Rightarrow> uuid \<Rightarrow> uuid \<Rightarrow> send_env \<Rightarrow> insert_payload" where
  "send_payload body userId recipientId env =
     \<lparr>ins_content = body, ins_user_id = userId, ins_recipient_id = Some recipientId,
      ins_conversation_id = js_or (data (conversation_resp env)) None,
      ins_status = Sent, ins_sent_at = Some (1000 * sent_clock env)\<rparr>"

text \<open>
  \<^verbatim>\<open>sendMessage(content, userId, recipientId)\<close> on the list \<open>prev\<close>, no other update
  of the list coming in between. The result is the list afterwards, the outcome
  (\<open>Inl\<close> the error thrown to the caller) and the requests sent.
\<close>

definition sendMessage ::
  "string \<Rightarrow> uuid \<Rightarrow> uuid \<Rightarrow> uuid option \<Rightarrow> send_env \<Rightarrow> ident Message list
     \<Rightarrow> ident Message list \<times> (string + unit) \<times> request list" where
  "sendMessage body userId recipientId currentUser env prev =
     (let optimistic = optimisticMessage body userId recipientId env;
          shown = prev @ [optimistic];
          payload = send_payload body userId recipientId env;
          sent = [Select_profile userId, Rpc_get_or_create_conversation userId recipientId,
                  Insert_message payload];
          resp = insert_resp env payload
      in case error resp of
           Some e \<Rightarrow> (filter (\<lambda>msg. msg_id msg \<noteq> msg_id optimistic) shown, Inl e, sent)
         | None \<Rightarrow>
             ((case data resp of
                 Some sentMessage \<Rightarrow>
                   map (\<lambda>msg. if msg_id msg = msg_id optimistic then sentMessage else msg) shown
               | None \<Rightarrow> shown),
              Inr (),
              sent @ [Update_last_seen userId] @ markMessagesAsDelivered currentUser))"

section \<open>Directory search (\<^verbatim>\<open>useUserSearch\<close>, \<^verbatim>\<open>UserSearch\<close>)\<close>

text \<open>
  \<^verbatim>\<open>String.prototype.trim\<close>: the white space and line terminators of the language up
  to U+00FF, the no-break space U+00A0 among them.
\<close>

definition is_space :: "char \<Rightarrow> bool" where
  "is_space c \<longleftrightarrow>
     c \<in> set [CHR '' '', CHR 0x09, CHR 0x0A, CHR 0x0B, CHR 0x0C, CHR 0x0D, CHR 0xA0]"

definition js_trim :: "string \<Rightarrow> string" where
  "js_trim s = rev (dropWhile is_space (rev (dropWhile is_space s)))"

text \<open>\<^verbatim>\<open>searchTerm.startsWith('@') ? searchTerm.slice(1) : searchTerm\<close>\<close>

definition strip_at :: "string \<Rightarrow> string" where
  "strip_at searchTerm =
     (case searchTerm of [] \<Rightarrow> [] | c # rest \<Rightarrow> if c = CHR ''@'' then rest else searchTerm)"

subsection \<open>The pattern match of \<^verbatim>\<open>.ilike('username', `%${cleanUsername}%`)\<close>\<close>

text \<open>
  SQL's \<^verbatim>\<open>LIKE\<close>: in the pattern \<^verbatim>\<open>%\<close> stands for any string, \<^verbatim>\<open>_\<close> for any one
  character, and a backslash makes the next character stand for itself. A pattern
  ending in a lone backslash matches nothing (PostgreSQL raises an error there; the
  search's pattern always ends in \<^verbatim>\<open>%\<close>).
\<close>

fun like_match :: "string \<Rightarrow> string \<Rightarrow> bool" where
  "like_match [] s = (s = [])"
| "like_match (p # ps) s =
     (if p = CHR ''%'' then
        like_match ps s \<or> (case s of [] \<Rightarrow> False | c # t \<Rightarrow> like_match (p # ps) t)
      else if p = CHR ''_'' then
        (case s of [] \<Rightarrow> False | c # t \<Rightarrow> like_match ps t)
      else if p = CHR 0x5C then
        (case ps of
           [] \<Rightarrow> False
         | q # qs \<Rightarrow> (case s of [] \<Rightarrow> False | c # t \<Rightarrow> c = q \<and> like_match qs t))
      else (case s of [] \<Rightarrow> False | c # t \<Rightarrow> c = p \<and> like_match ps t))"

text \<open>
  \<^verbatim>\<open>ILIKE\<close> compares without regard to case: both sides in lower case, the letters
  being those of ASCII.
\<close>

definition to_lower :: "char \<Rightarrow> char" where
  "to_lower c =
     (if CHR ''A'' \<le> c \<and> c \<le> CHR ''Z'' then char_of (of_char c + (32 :: nat)) else c)"

definition ilike :: "string \<Rightarrow> string \<Rightarrow> bool" where
  "ilike subject pattern = like_match (map to_lower pattern) (map to_lower subject)"

text \<open>The request's filter value: PostgREST reads \<^verbatim>\<open>*\<close> in it as \<^verbatim>\<open>%\<close>.\<close>

definition postgrest_pattern :: "string \<Rightarrow> string" where
  "postgrest_pattern v = map (\<lambda>c. if c = CHR ''*'' then CHR ''%'' else c) v"

text \<open>
  The query of \<^verbatim>\<open>searchUserByUsername\<close>, as the backend answers it:
  \<^verbatim>\<open>.ilike('username', `%${cleanUsername}%`).order('username').limit(10)\<close>.
  The collation of the \<^verbatim>\<open>username\<close> column is the parameter \<open>collation\<close>, a sort
  key of the strings.
\<close>

definition search_profiles ::
  "(string \<Rightarrow> 'k::linorder) \<Rightarrow> string \<Rightarrow> profile list \<Rightarrow> profile list" where
  "search_profiles collation cleanUsername profiles =
     take 10 (sort_key (\<lambda>p. collation (username p))
       (filter (\<lambda>p. ilike (username p) (postgrest_pattern (''%'' @ cleanUsername @ ''%'')))
          profiles))"

text \<open>The state of the search hook.\<close>

record search =
  searchResults :: "profile list"
  search_loading :: bool
  search_error :: "string option"

text \<open>
  \<^verbatim>\<open>searchUserByUsername(searchTerm)\<close>; \<open>query\<close> is what the request for a cleaned
  term resolves to.
\<close>

definition searchUserByUsername ::
  "string \<Rightarrow> (string \<Rightarrow> profile list response) \<Rightarrow> search \<Rightarrow> search" where
  "searchUserByUsername searchTerm query st =
     (if js_trim searchTerm = [] then st\<lparr>searchResults := []\<rparr>
      else
        (let cleanUsername = strip_at searchTerm in
         if js_trim cleanUsername = []
         then st\<lparr>searchResults := [], search_loading := False, search_error := None\<rparr>
         else
           (let resp = query cleanUsername in
            case error resp of
              Some e \<Rightarrow> st\<lparr>searchResults := [], search_loading := False, search_error := Some e\<rparr>
            | None \<Rightarrow>
                st\<lparr>searchResults := (case data resp of Some d \<Rightarrow> d | None \<Rightarrow> []),
                   search_loading := False, search_error := None\<rparr>)))"

text \<open>The search against a table of profiles.\<close>

definition search_directory ::
  "(string \<Rightarrow> 'k::linorder) \<Rightarrow> profile list \<Rightarrow> string \<Rightarrow> search \<Rightarrow> search" where
  "search_directory collation profiles searchTerm st =
     searchUserByUsername searchTerm
       (\<lambda>cleanUsername. Response (Some (search_profiles collation cleanUsername profiles)) None) st"

text \<open>
  The dropdown of \<^verbatim>\<open>UserSearch\<close>: the entries it shows, and the user a click on an
  entry or the Enter key hands to \<^verbatim>\<open>onSelectUser\<close> (\<open>None\<close>: nobody).
  \<open>currentUserId\<close> is the component's optional property.
\<close>

definition filteredResults :: "uuid option \<Rightarrow> profile list \<Rightarrow> profile list" where
  "filteredResults currentUserId results =
     filter (\<lambda>user. Some (profile_id user) \<noteq> currentUserId) results"

definition handleSelectUser :: "uuid option \<Rightarrow> profile \<Rightarrow> profile option" where
  "handleSelectUser currentUserId user =
     (if Some (profile_id user) \<noteq> currentUserId then Some user else None)"

definition select_by_click :: "uuid option \<Rightarrow> profile list \<Rightarrow> nat \<Rightarrow> profile option" where
  "select_by_click currentUserId results k =
     (if k < length (filteredResults currentUserId results)
      then handleSelectUser currentUserId (filteredResults currentUserId results ! k)
      else None)"

definition select_by_enter :: "uuid option \<Rightarrow> profile list \<Rightarrow> int \<Rightarrow> profile option" where
  "select_by_enter currentUserId results selectedIndex =
     (if 0 \<le> selectedIndex \<and> selectedIndex < int (length results)
      then handleSelectUser currentUserId (results ! nat selectedIndex)
      else None)"

text \<open>The characters that do not stand for themselves in the request's pattern.\<close>

definition wildcard :: "char \<Rightarrow> bool" where
  "wildcard c \<longleftrightarrow> c \<in> set [CHR ''%'', CHR ''_'', CHR 0x5C, CHR ''*'']"

text \<open>The handle contains the term, letters compared without regard to case.\<close>

definition contains_ci :: "string \<Rightarrow> string \<Rightarrow> bool" where
  "contains_ci handle needle \<longleftrightarrow> sublist (map to_lower needle) (map to_lower handle)"

section \<open>Session bootstrap (\<^verbatim>\<open>useAuth\<close>, \<^verbatim>\<open>ChatRoom\<close>)\<close>














section \<open>Notions of the properties, and data for the examples\<close>

text \<open>A message of the client's list: the columns the examples vary, the others empty.\<close>

definition example_message ::
  "ident \<Rightarrow> uuid \<Rightarrow> uuid option \<Rightarrow> timestamptz \<Rightarrow> message_status \<Rightarrow> ident Message" where
  "example_message i sender recipient t st =
     \<lparr>msg_id = i, content = ''hi'', user_id = sender, recipient_id = recipient,
      conversation_id = None, created_at = t, sent_at = None, delivered_at = None,
      seen_at = None, status = st, user_profile = None\<rparr>"

text \<open>The row an event of the feed carries.\<close>

fun event_row :: "event \<Rightarrow> uuid message" where
  "event_row (Insert newMessage) = newMessage"
| "event_row (Update updatedMessage) = updatedMessage"

text \<open>
  An environment of \<^verbatim>\<open>sendMessage\<close> whose insert fails, and one whose insert stores
  the row, the server's \<^verbatim>\<open>now()\<close> being the client's clock.
\<close>

definition failing_env :: "int \<Rightarrow> send_env" where
  "failing_env clock =
     \<lparr>profile_resp = Response None None, id_clock = clock, created_clock = clock,
      sent_clock = clock, conversation_resp = Response None None,
      insert_resp = (\<lambda>p. Response None (Some ''insert failed''))\<rparr>"

definition storing_env :: "profile list \<Rightarrow> uuid \<Rightarrow> int \<Rightarrow> send_env" where
  "storing_env profiles fresh clock =
     \<lparr>profile_resp = Response None None, id_clock = clock, created_clock = clock,
      sent_clock = clock, conversation_resp = Response None None,
      insert_resp =
        (\<lambda>p. Response (Some (joined profiles (inserted_row profiles fresh (1000 * clock) p))) None)\<rparr>"

text \<open>The list after a sequence of insert events, each with its refreshed message.\<close>

definition add_messages :: "ident Message list \<Rightarrow> ident Message list \<Rightarrow> ident Message list" where
  "add_messages ds prev = fold add_message ds prev"

text \<open>
  A thread of \<open>n\<close> messages from \<open>a\<close> to \<open>b\<close>, the \<open>k\<close>-th created
  \<open>k\<close> milliseconds after the epoch, with ids of different lengths.
\<close>

definition thread_of :: "uuid \<Rightarrow> uuid \<Rightarrow> nat \<Rightarrow> uuid message list" where
  "thread_of a b n =
     map (\<lambda>k. example_row (replicate (Suc k) CHR ''m'') a (Some b) (1000 * int k) Sent) [0..<n]"

text \<open>A profile for the examples, last active at the given time.\<close>

definition example_profile :: "uuid \<Rightarrow> timestamptz option \<Rightarrow> profile" where
  "example_profile i seen =
     \<lparr>username = i, full_name = None, avatar_url = None, profile_id = i,
      profile_created_at = Some 0, last_seen = seen\<rparr>"

text \<open>
  What the client's list keeps: an entry with a temporary id is a placeholder, and
  its status is \<^verbatim>\<open>'sending'\<close>.
\<close>

definition placeholders_sending :: "ident Message list \<Rightarrow> bool" where
  "placeholders_sending ms \<longleftrightarrow>
     list_all (\<lambda>m. case msg_id m of Temp t \<Rightarrow> status m = Sending | Uuid i \<Rightarrow> True) ms"

text \<open>
  A list with no placeholder: no send is under way. The composer starts no send
  while one is under way, and a send that ends leaves no placeholder, so this is the
  list a send starts from.
\<close>

definition settled :: "ident Message list \<Rightarrow> bool" where
  "settled ms \<longleftrightarrow> list_all (\<lambda>m. case msg_id m of Temp t \<Rightarrow> False | Uuid i \<Rightarrow> True) ms"


section \<open>Properties of the server-side procedures\<close>

subsection \<open>Marking messages as seen\<close>

lemma seen_target_after:
  "\<not> seen_target s v (m\<lparr>seen_at := Some now, status := Seen\<rparr>)"
  by (simp add: seen_target_def)

lemma mark_seen_idem:
  "mark_messages_as_seen now' s v (mark_messages_as_seen now s v ms) =
     mark_messages_as_seen now s v ms"
  by (induction ms) (simp_all add: mark_messages_as_seen_def seen_target_after)

text \<open>
  Claim C10. \<^verbatim>\<open>mark_messages_as_seen(sender_id, viewer_id)\<close> keeps the number and
  the places of the rows; a row whose sender is \<open>sender_id\<close>, whose recipient is
  \<open>viewer_id\<close> and whose \<^verbatim>\<open>seen_at\<close> is null gets \<^verbatim>\<open>seen_at\<close> and the status
  \<^verbatim>\<open>'seen'\<close> and keeps its other columns; every other row is the row it was; and a
  second call with the same arguments, at whatever time, changes nothing.
\<close>

theorem mark_messages_as_seen_frame:
  "length (mark_messages_as_seen now s v ms) = length ms \<and>
   (\<forall>i<length ms.
      mark_messages_as_seen now s v ms ! i =
        (if user_id (ms ! i) = s \<and> recipient_id (ms ! i) = Some v \<and> seen_at (ms ! i) = None
         then (ms ! i)\<lparr>seen_at := Some now, status := Seen\<rparr>
         else ms ! i)) \<and>
   mark_messages_as_seen now' s v (mark_messages_as_seen now s v ms) =
     mark_messages_as_seen now s v ms"
  using mark_seen_idem [of now' s v now ms]
  by (simp add: mark_messages_as_seen_def seen_target_def)

theorem mark_messages_as_seen_frame_witness:
  "(let rows = [example_row ''m1'' ''ann'' (Some ''bob'') 10 Sent,
                example_row ''m2'' ''bob'' (Some ''ann'') 20 Delivered];
        rows' = mark_messages_as_seen 30 ''ann'' ''bob'' rows
    in (0::nat) < length rows \<and> (1::nat) < length rows \<and>
       rows' ! 0 = (rows ! 0)\<lparr>seen_at := Some 30, status := Seen\<rparr> \<and>
       rows' ! 1 = rows ! 1 \<and>
       mark_messages_as_seen 40 ''ann'' ''bob'' rows' = rows')"
  using mark_messages_as_seen_frame
    [of 30 "''ann''" "''bob''"
        "[example_row ''m1'' ''ann'' (Some ''bob'') 10 Sent,
          example_row ''m2'' ''bob'' (Some ''ann'') 20 Delivered]" 40]
  by (simp add: example_row_def Let_def)

subsection \<open>Resolving the conversation of a pair\<close>

lemma ordered_pair_sym: "ordered_pair a b = ordered_pair b a"
  by (cases a b rule: linorder_cases) (auto simp: ordered_pair_def)

lemma ordered_pair_min_max: "ordered_pair a b = (min a b, max a b)"
  by (cases a b rule: linorder_cases) (auto simp: ordered_pair_def min_def max_def)

lemma ordered_pair_le: "ordered_pair a b = (x, y) \<Longrightarrow> x \<le> y"
  by (auto simp: ordered_pair_def split: if_splits)

lemma find_snoc:
  "find P (xs @ [x]) =
     (case find P xs of Some y \<Rightarrow> Some y | None \<Rightarrow> if P x then Some x else None)"
  by (induction xs) simp_all

lemma goc_again:
  assumes "get_or_create_conversation nid now a b cs = (i, cs')"
  shows "get_or_create_conversation nid' now' a b cs' = (i, cs')"
  using assms
  by (auto simp: get_or_create_conversation_def find_snoc split: prod.splits option.splits)

lemma at_most_one_of_key:
  "distinct (map f xs) \<Longrightarrow> length (filter (\<lambda>x. f x = k) xs) \<le> 1"
proof (induction xs)
  case Nil
  then show ?case by simp
next
  case (Cons x xs)
  show ?case
  proof (cases "f x = k")
    case True
    with Cons.prems have "k \<notin> f ` set xs" by simp
    then have "filter (\<lambda>x. f x = k) xs = []" by (auto simp: filter_empty_conv)
    with True show ?thesis by simp
  next
    case False
    with Cons show ?thesis by simp
  qed
qed

lemma between_canonical:
  "user1_id c \<le> user2_id c \<Longrightarrow>
   between a b c \<longleftrightarrow> (user1_id c, user2_id c) = ordered_pair a b"
  by (auto simp: between_def ordered_pair_def)

lemma canonical_between_filter:
  assumes "canonical cs"
  shows "filter (between a b) cs =
         filter (\<lambda>c. (user1_id c, user2_id c) = ordered_pair a b) cs"
  using assms by (intro filter_cong) (auto simp: canonical_def list_all_iff between_canonical)

lemma goc_canonical:
  assumes "get_or_create_conversation nid now a b cs = (i, cs')" and "canonical cs"
  shows "canonical cs'"
  using assms
  by (auto simp: get_or_create_conversation_def canonical_def find_None_iff
      dest: ordered_pair_le split: prod.splits option.splits)

lemma goc_has_row:
  assumes "get_or_create_conversation nid now a b cs = (i, cs')"
  shows "\<exists>c\<in>set cs'. (user1_id c, user2_id c) = ordered_pair a b \<and> conv_id c = i"
  using assms
  by (auto simp: get_or_create_conversation_def find_Some_iff
      split: prod.splits option.splits)

text \<open>
  Claim C2. Let \<^verbatim>\<open>get_or_create_conversation(a, b)\<close> return the id \<open>i\<close> and leave
  the table \<open>cs'\<close>. The call with the two users exchanged returns the same id and
  the same table; any later call for the pair, in either order, returns \<open>i\<close> again
  and inserts nothing; the id is that of the row of the pair ordered smaller-id-first
  when there is one, and otherwise that of the one row the call inserts, which holds
  the pair in that order; and when every row of the
  table is stored smaller-id-first with no ordered pair twice, the same holds
  afterwards and exactly one row joins the two users.
\<close>

theorem get_or_create_conversation_pair:
  assumes "get_or_create_conversation fresh now a b cs = (i, cs')"
  shows "get_or_create_conversation fresh now b a cs = (i, cs') \<and>
         get_or_create_conversation fresh' now' b a cs' = (i, cs') \<and>
         get_or_create_conversation fresh' now' a b cs' = (i, cs') \<and>
         (case find (\<lambda>c. user1_id c = min a b \<and> user2_id c = max a b) cs of
            Some c \<Rightarrow> i = conv_id c \<and> cs' = cs
          | None \<Rightarrow>
              i = fresh \<and>
              cs' = cs @ [\<lparr>conv_id = fresh, user1_id = min a b, user2_id = max a b,
                           conv_created_at = now, updated_at = now\<rparr>]) \<and>
         (canonical cs \<longrightarrow> canonical cs' \<and> length (filter (between a b) cs') = 1)"
proof -
  have sym: "get_or_create_conversation fresh now b a cs = (i, cs')"
    using assms by (simp add: get_or_create_conversation_def ordered_pair_sym [of b a])
  have again: "get_or_create_conversation fresh' now' a b cs' = (i, cs')"
    using assms by (rule goc_again)
  have again_sym: "get_or_create_conversation fresh' now' b a cs' = (i, cs')"
    using again by (simp add: get_or_create_conversation_def ordered_pair_sym [of b a])
  have branch: "(case find (\<lambda>c. user1_id c = min a b \<and> user2_id c = max a b) cs of
            Some c \<Rightarrow> i = conv_id c \<and> cs' = cs
          | None \<Rightarrow>
              i = fresh \<and>
              cs' = cs @ [\<lparr>conv_id = fresh, user1_id = min a b, user2_id = max a b,
                           conv_created_at = now, updated_at = now\<rparr>])"
    using assms
    by (auto simp: get_or_create_conversation_def ordered_pair_min_max split: option.splits)
  have uniq: "canonical cs' \<and> length (filter (between a b) cs') = 1" if c: "canonical cs"
  proof -
    have c': "canonical cs'" using assms c by (rule goc_canonical)
    let ?P = "\<lambda>c. (user1_id c, user2_id c) = ordered_pair a b"
    have "distinct (map (\<lambda>c. (user1_id c, user2_id c)) cs')"
      using c' by (simp add: canonical_def)
    then have "length (filter ?P cs') \<le> 1" by (rule at_most_one_of_key)
    moreover have "filter ?P cs' \<noteq> []"
      using goc_has_row [OF assms] by (auto simp: filter_empty_conv)
    ultimately have "length (filter ?P cs') = 1"
      by (cases "filter ?P cs'") auto
    with c' show ?thesis by (simp add: canonical_between_filter)
  qed
  from sym again again_sym branch uniq show ?thesis by blast
qed

theorem get_or_create_conversation_pair_witness:
  "get_or_create_conversation ''c1'' 5 ''bob'' ''ann'' [] =
     (''c1'', [\<lparr>conv_id = ''c1'', user1_id = ''ann'', user2_id = ''bob'',
               conv_created_at = 5, updated_at = 5\<rparr>]) \<and>
   canonical [] \<and>
   get_or_create_conversation ''c2'' 9 ''ann'' ''bob''
     [\<lparr>conv_id = ''c1'', user1_id = ''ann'', user2_id = ''bob'',
       conv_created_at = 5, updated_at = 5\<rparr>] =
     (''c1'', [\<lparr>conv_id = ''c1'', user1_id = ''ann'', user2_id = ''bob'',
               conv_created_at = 5, updated_at = 5\<rparr>]) \<and>
   length (filter (between ''bob'' ''ann'')
     [\<lparr>conv_id = ''c1'', user1_id = ''ann'', user2_id = ''bob'',
       conv_created_at = 5, updated_at = 5\<rparr>]) = 1"
proof -
  have run: "get_or_create_conversation ''c1'' 5 ''bob'' ''ann'' [] =
     (''c1'', [\<lparr>conv_id = ''c1'', user1_id = ''ann'', user2_id = ''bob'',
               conv_created_at = 5, updated_at = 5\<rparr>])"
    by (simp add: get_or_create_conversation_def ordered_pair_def)
  have c: "canonical []" by (simp add: canonical_def)
  from get_or_create_conversation_pair [OF run, of "''c2''" 9] c run
  show ?thesis by simp
qed

section \<open>Properties of the message store\<close>

subsection \<open>Events of other threads\<close>

text \<open>
  Claim C5. An insert or update event whose (sender, recipient) pair is neither
  (self, peer) nor (peer, self) leaves the message list as it is: the handler of
  either kind returns the list unchanged, and the insert handler schedules no
  mark-seen call.
\<close>

theorem unrelated_event_ignored:
  assumes "(user_id (event_row ev), recipient_id (event_row ev)) \<noteq> (me, Some peer)"
      and "(user_id (event_row ev), recipient_id (event_row ev)) \<noteq> (peer, Some me)"
  shows "on_event me peer ev resp prev = prev \<and>
         on_insert me peer (event_row ev) resp prev = (prev, False) \<and>
         on_update me peer (event_row ev) resp prev = prev"
  using assms
  by (cases ev) (auto simp: on_insert_def on_update_def isRelevantMessage_def)

theorem unrelated_event_ignored_witness:
  "(let ev = Insert (example_row ''m9'' ''carol'' (Some ''dave'') 5 Sent);
        prev = [example_message (Uuid ''m1'') ''ann'' (Some ''bob'') 1000 Seen];
        resp = Response (Some (example_message (Uuid ''m9'') ''carol'' (Some ''dave'') 5000 Sent)) None
    in (user_id (event_row ev), recipient_id (event_row ev)) \<noteq> (''ann'', Some ''bob'') \<and>
       (user_id (event_row ev), recipient_id (event_row ev)) \<noteq> (''bob'', Some ''ann'') \<and>
       on_event ''ann'' ''bob'' ev resp prev = prev)"
  using unrelated_event_ignored
    [of "Insert (example_row ''m9'' ''carol'' (Some ''dave'') 5 Sent)" "''ann''" "''bob''"
        "Response (Some (example_message (Uuid ''m9'') ''carol'' (Some ''dave'') 5000 Sent)) None"
        "[example_message (Uuid ''m1'') ''ann'' (Some ''bob'') 1000 Seen]"]
  by (simp add: example_row_def Let_def)

subsection \<open>The requests of a load\<close>

lemma sendMessage_success_requests:
  assumes "error (insert_resp env (send_payload body u r env)) = None"
  shows "snd (snd (sendMessage body u r cu env prev)) =
           [Select_profile u, Rpc_get_or_create_conversation u r,
            Insert_message (send_payload body u r env), Update_last_seen u] @
           markMessagesAsDelivered cu"
  using assms by (simp add: sendMessage_def Let_def)

text \<open>
  Claim C8, as amended. With a peer selected and the user signed in, the effect
  sends the history query, the mark-seen call with the peer as sender and the user
  as viewer, and the subscription, and no mark-delivered call; the mark-delivered
  call for the current user is among the requests of a send whose insert succeeds.
\<close>

theorem load_issues_mark_seen_only:
  assumes "peer \<noteq> []"
  shows "snd (useMessages_effect (Some peer) (Some me) False st) =
           [Select_messages me peer, Rpc_mark_messages_as_seen peer me, Subscribe_messages] \<and>
         Rpc_mark_messages_as_delivered me
           \<notin> set (snd (useMessages_effect (Some peer) (Some me) False st)) \<and>
         (error (insert_resp env (send_payload body me peer env)) = None \<longrightarrow>
            Rpc_mark_messages_as_delivered me
              \<in> set (snd (snd (sendMessage body me peer (Some me) env prev))))"
  using assms
  by (simp add: useMessages_effect_def truthy_def fetchMessages_request_def
      markMessagesAsSeen_def markMessagesAsDelivered_def sendMessage_success_requests)

theorem load_issues_mark_seen_only_witness:
  "''bob'' \<noteq> [] \<and>
   error (insert_resp (storing_env [] ''m5'' 7) (send_payload ''yo'' ''ann'' ''bob'' (storing_env [] ''m5'' 7))) = None \<and>
   snd (useMessages_effect (Some ''bob'') (Some ''ann'') False \<lparr>messages = [], loading = True\<rparr>) =
     [Select_messages ''ann'' ''bob'', Rpc_mark_messages_as_seen ''bob'' ''ann'', Subscribe_messages] \<and>
   Rpc_mark_messages_as_delivered ''ann''
     \<in> set (snd (snd (sendMessage ''yo'' ''ann'' ''bob'' (Some ''ann'') (storing_env [] ''m5'' 7) [])))"
proof -
  have p: "''bob'' \<noteq> []" by simp
  have ok: "error (insert_resp (storing_env [] ''m5'' 7)
      (send_payload ''yo'' ''ann'' ''bob'' (storing_env [] ''m5'' 7))) = None"
    by (simp add: storing_env_def)
  from load_issues_mark_seen_only [OF p, of "''ann''" "\<lparr>messages = [], loading = True\<rparr>"
      "storing_env [] ''m5'' 7" "''yo''" "[]"] ok p
  show ?thesis by simp
qed

text \<open>
  Claim C8 as stated fails: loading the history of a peer sends no
  \<^verbatim>\<open>mark_messages_as_delivered\<close> call.
\<close>

theorem load_mark_delivered_counterexample:
  "Rpc_mark_messages_as_delivered ''ann''
     \<notin> set (snd (useMessages_effect (Some ''bob'') (Some ''ann'') False
                  \<lparr>messages = [], loading = True\<rparr>))"
  by (simp add: useMessages_effect_def truthy_def fetchMessages_request_def
      markMessagesAsSeen_def)

subsection \<open>Insert events\<close>

lemma set_insert_sorted: "set (insert_sorted c x ys) = insert x (set ys)"
  by (induction ys) auto

lemma set_js_sort: "set (js_sort c xs) = set xs"
  by (induction xs) (simp_all add: js_sort_def set_insert_sorted)

lemma insert_sorted_insort:
  "insert_sorted by_created_at x ys = insort_key getTime x ys"
  by (induction ys) (simp_all add: by_created_at_def)

lemma js_sort_sort_key: "js_sort by_created_at xs = sort_key getTime xs"
  by (induction xs) (simp_all add: js_sort_def insert_sorted_insort)

lemma list_ex_id_iff:
  "list_ex (\<lambda>m. msg_id m = i) xs \<longleftrightarrow> i \<in> msg_id ` set xs"
  by (auto simp: list_ex_iff image_iff)

lemma add_message_present:
  "list_ex (\<lambda>m. msg_id m = msg_id d) prev \<Longrightarrow> add_message d prev = prev"
  by (simp add: add_message_def)

lemma add_message_absent:
  "\<not> list_ex (\<lambda>m. msg_id m = msg_id d) prev \<Longrightarrow>
   add_message d prev = js_sort by_created_at (prev @ [d])"
  by (simp add: add_message_def)

lemma add_message_idem:
  assumes "msg_id d' = msg_id d"
  shows "add_message d' (add_message d prev) = add_message d prev"
proof (cases "list_ex (\<lambda>m. msg_id m = msg_id d) prev")
  case True
  with assms show ?thesis by (simp add: add_message_present)
next
  case False
  have "list_ex (\<lambda>m. msg_id m = msg_id d') (js_sort by_created_at (prev @ [d]))"
    using assms by (simp add: list_ex_id_iff set_js_sort)
  with False show ?thesis
    by (simp add: add_message_absent add_message_present)
qed

lemma ids_add_message:
  "msg_id ` set (add_message d prev) = insert (msg_id d) (msg_id ` set prev)"
  by (auto simp: add_message_def set_js_sort list_ex_id_iff)

lemma sort_key_absorb:
  "sort_key f (sort_key f xs @ ys) = sort_key f (xs @ ys)"
proof (rule properties_for_sort_key)
  show "mset (sort_key f (xs @ ys)) = mset (sort_key f xs @ ys)" by simp
  show "sorted (map f (sort_key f (xs @ ys)))" by simp
  fix k
  have "filter (\<lambda>x. f x = f k) (sort_key f (xs @ ys)) = filter (\<lambda>x. f x = f k) (xs @ ys)"
    by (rule sort_key_stable)
  moreover have "filter (\<lambda>x. f x = f k) (sort_key f xs) = filter (\<lambda>x. f x = f k) xs"
    by (rule sort_key_stable)
  ultimately have "filter (\<lambda>x. f x = f k) (sort_key f (xs @ ys)) =
      filter (\<lambda>x. f x = f k) (sort_key f xs @ ys)"
    by simp
  then show "filter (\<lambda>x. f k = f x) (sort_key f (xs @ ys)) =
      filter (\<lambda>x. f k = f x) (sort_key f xs @ ys)"
    by (simp add: eq_commute [of "f k"])
qed

lemma distinct_key_filter_eq:
  assumes "mset xs = mset ys" and "distinct (map f xs)"
  shows "filter (\<lambda>x. f k = f x) xs = filter (\<lambda>x. f k = f x) ys"
proof -
  have dy: "distinct (map f ys)"
  proof -
    have "mset (map f xs) = mset (map f ys)" using assms(1) by (metis mset_map)
    with assms(2) show ?thesis by (metis mset_eq_imp_distinct_iff)
  qed
  have len: "length (filter (\<lambda>x. f x = f k) zs) \<le> 1" if "distinct (map f zs)" for zs
    using that by (rule at_most_one_of_key)
  have m: "mset (filter (\<lambda>x. f x = f k) xs) = mset (filter (\<lambda>x. f x = f k) ys)"
    using assms(1) by (metis mset_filter)
  have "filter (\<lambda>x. f x = f k) xs = filter (\<lambda>x. f x = f k) ys"
  proof (cases "filter (\<lambda>x. f x = f k) xs")
    case Nil
    with m show ?thesis by simp
  next
    case (Cons a as)
    with len [OF assms(2)] have xs1: "filter (\<lambda>x. f x = f k) xs = [a]" by simp
    with m have "mset (filter (\<lambda>x. f x = f k) ys) = {#a#}" by (simp del: mset_filter)
    then have "filter (\<lambda>x. f x = f k) ys = [a]" by (rule mset_single_iff [THEN iffD1])
    with xs1 show ?thesis by simp
  qed
  then show ?thesis by (simp add: eq_commute [of "f k"])
qed

lemma sort_key_perm_tail:
  assumes "mset es = mset es'" and "distinct (map f es)"
  shows "sort_key f (xs @ es) = sort_key f (xs @ es')"
proof (rule properties_for_sort_key)
  show "mset (sort_key f (xs @ es')) = mset (xs @ es)" using assms(1) by simp
  show "sorted (map f (sort_key f (xs @ es')))" by simp
  fix k
  have "filter (\<lambda>x. f x = f k) (sort_key f (xs @ es')) = filter (\<lambda>x. f x = f k) (xs @ es')"
    by (rule sort_key_stable)
  then have "filter (\<lambda>x. f k = f x) (sort_key f (xs @ es')) = filter (\<lambda>x. f k = f x) (xs @ es')"
    by (simp add: eq_commute [of "f k"])
  moreover have "filter (\<lambda>x. f k = f x) es = filter (\<lambda>x. f k = f x) es'"
    using assms by (rule distinct_key_filter_eq)
  ultimately show "filter (\<lambda>x. f k = f x) (sort_key f (xs @ es')) =
      filter (\<lambda>x. f k = f x) (xs @ es)"
    by simp
qed


lemma add_messages_snoc: "add_messages (ds @ [d]) prev = add_message d (add_messages ds prev)"
  by (simp add: add_messages_def)

lemma ids_add_messages:
  "msg_id ` set (add_messages ds prev) = msg_id ` set ds \<union> msg_id ` set prev"
proof (induction ds rule: rev_induct)
  case Nil
  then show ?case by (simp add: add_messages_def)
next
  case (snoc d ds)
  then show ?case by (simp add: add_messages_snoc ids_add_message)
qed

text \<open>
  After a sequence of events the list is either untouched or sorted: what matters is
  which of the messages had an id the list did not hold.
\<close>

lemma add_messages_sorted:
  assumes "distinct (map msg_id ds)"
  shows "add_messages ds prev =
           (let new = filter (\<lambda>d. msg_id d \<notin> msg_id ` set prev) ds
            in if new = [] then prev else sort_key getTime (prev @ new))"
  using assms
proof (induction ds rule: rev_induct)
  case Nil
  then show ?case by (simp add: add_messages_def)
next
  case (snoc d ds)
  let ?new = "filter (\<lambda>d. msg_id d \<notin> msg_id ` set prev) ds"
  let ?R = "add_messages ds prev"
  from snoc.prems have dist: "distinct (map msg_id ds)" and fresh: "msg_id d \<notin> msg_id ` set ds"
    by simp_all
  have R: "?R = (if ?new = [] then prev else sort_key getTime (prev @ ?new))"
    using snoc.IH [OF dist] by (simp add: Let_def)
  have idsR: "msg_id ` set ?R = msg_id ` set ds \<union> msg_id ` set prev"
    by (rule ids_add_messages)
  show ?case
  proof (cases "msg_id d \<in> msg_id ` set prev")
    case True
    then have "list_ex (\<lambda>m. msg_id m = msg_id d) ?R"
      using idsR by (simp add: list_ex_id_iff)
    then have "add_message d ?R = ?R" by (rule add_message_present)
    with True R show ?thesis by (simp add: add_messages_snoc Let_def)
  next
    case False
    with fresh idsR have "\<not> list_ex (\<lambda>m. msg_id m = msg_id d) ?R"
      by (simp add: list_ex_id_iff)
    then have step: "add_message d ?R = js_sort by_created_at (?R @ [d])"
      by (rule add_message_absent)
    have "js_sort by_created_at (?R @ [d]) = sort_key getTime (?R @ [d])"
      by (rule js_sort_sort_key)
    also have "\<dots> = sort_key getTime (prev @ ?new @ [d])"
      using R sort_key_absorb [of getTime "prev @ ?new" "[d]"] by simp
    finally show ?thesis
      using False step by (simp add: add_messages_snoc Let_def)
  qed
qed

lemma add_messages_perm:
  assumes "mset ds = mset ds'" and "distinct (map msg_id ds)"
      and "distinct (map getTime ds)"
  shows "add_messages ds prev = add_messages ds' prev"
proof -
  let ?P = "\<lambda>d. msg_id d \<notin> msg_id ` set prev"
  have dist': "distinct (map msg_id ds')"
    using assms(1,2) by (metis mset_eq_imp_distinct_iff mset_map)
  have set_eq: "set ds = set ds'" using assms(1) by (rule mset_eq_setD)
  have m: "mset (filter ?P ds) = mset (filter ?P ds')"
    using assms(1) by simp
  have d: "distinct (map getTime (filter ?P ds))"
    using assms(3) by (rule distinct_map_filter)
  have empty: "filter ?P ds = [] \<longleftrightarrow> filter ?P ds' = []"
    using set_eq by (simp add: filter_empty_conv)
  have "sort_key getTime (prev @ filter ?P ds) = sort_key getTime (prev @ filter ?P ds')"
    using m d by (rule sort_key_perm_tail)
  with empty show ?thesis
    by (simp add: add_messages_sorted [OF assms(2)] add_messages_sorted [OF dist'] Let_def)
qed


text \<open>
  Claim C6, as amended. For a relevant insert event whose refetch succeeds the new
  list is \<open>add_message d prev\<close>, and that update is idempotent: applying it again,
  also with another record of the same id, changes nothing. When the id of the
  message is in the list, the list is unchanged. When it is not, the message is
  appended and the list sorted by the millisecond of creation, messages of the same
  millisecond staying in the order they had. For a sequence of events whose messages
  have different ids and were created in different milliseconds, every order of
  arrival leaves the same list.
\<close>

theorem insert_event_idempotent:
  "(isRelevantMessage me peer row \<longrightarrow>
      fst (on_insert me peer row (Response (Some d) None) prev) = add_message d prev) \<and>
   (msg_id d' = msg_id d \<longrightarrow> add_message d' (add_message d prev) = add_message d prev) \<and>
   (msg_id d \<in> msg_id ` set prev \<longrightarrow> add_message d prev = prev) \<and>
   (msg_id d \<notin> msg_id ` set prev \<longrightarrow>
      add_message d prev = sort_key (\<lambda>m. created_at m div 1000) (prev @ [d]) \<and>
      sorted (map (\<lambda>m. created_at m div 1000) (add_message d prev))) \<and>
   (mset ds = mset ds' \<and> distinct (map msg_id ds) \<and>
    distinct (map (\<lambda>m. created_at m div 1000) ds) \<longrightarrow>
      add_messages ds prev = add_messages ds' prev)"
proof -
  have key: "getTime = (\<lambda>m :: ident Message. created_at m div 1000)"
    by (rule ext) (simp add: getTime_def)
  have handler: "fst (on_insert me peer row (Response (Some d) None) prev) = add_message d prev"
    if "isRelevantMessage me peer row"
    using that by (simp add: on_insert_def)
  have idem: "add_message d' (add_message d prev) = add_message d prev"
    if "msg_id d' = msg_id d"
    using that by (rule add_message_idem)
  have present: "add_message d prev = prev" if "msg_id d \<in> msg_id ` set prev"
    using that by (simp add: add_message_present list_ex_id_iff)
  have absent: "add_message d prev = sort_key (\<lambda>m. created_at m div 1000) (prev @ [d]) \<and>
      sorted (map (\<lambda>m. created_at m div 1000) (add_message d prev))"
    if "msg_id d \<notin> msg_id ` set prev"
    using that by (simp add: add_message_absent list_ex_id_iff js_sort_sort_key key)
  have perm: "add_messages ds prev = add_messages ds' prev"
    if "mset ds = mset ds'" and "distinct (map msg_id ds)"
      and "distinct (map (\<lambda>m. created_at m div 1000) ds)"
    using that add_messages_perm [of ds ds' prev] by (simp add: key)
  from handler idem present absent perm
  show ?thesis by blast
qed

theorem insert_event_idempotent_witness:
  "(let m1 = example_message (Uuid ''m1'') ''ann'' (Some ''bob'') 1000000 Seen;
        a = example_message (Uuid ''m3'') ''bob'' (Some ''ann'') 5000100 Sent;
        b = example_message (Uuid ''m2'') ''ann'' (Some ''bob'') 3000900 Sent
    in isRelevantMessage ''ann'' ''bob'' (example_row ''m3'' ''bob'' (Some ''ann'') 5000100 Sent) \<and>
       msg_id m1 \<in> msg_id ` set [m1] \<and>
       msg_id a \<notin> msg_id ` set [m1] \<and>
       mset [a, b] = mset [b, a] \<and> distinct (map msg_id [a, b]) \<and>
       distinct (map (\<lambda>m. created_at m div 1000) [a, b]) \<and>
       msg_id (a\<lparr>status := Seen\<rparr>) = msg_id a \<and>
       add_message (a\<lparr>status := Seen\<rparr>) (add_message a [m1]) = [m1, a] \<and>
       fst (on_insert ''ann'' ''bob'' (example_row ''m3'' ''bob'' (Some ''ann'') 5000100 Sent)
              (Response (Some a) None) [m1]) = [m1, a] \<and>
       add_message m1 [m1] = [m1] \<and>
       add_messages [a, b] [m1] = [m1, b, a] \<and>
       add_messages [b, a] [m1] = [m1, b, a])"
proof -
  define m1 where "m1 = example_message (Uuid ''m1'') ''ann'' (Some ''bob'') 1000000 Seen"
  define a where "a = example_message (Uuid ''m3'') ''bob'' (Some ''ann'') 5000100 Sent"
  define b where "b = example_message (Uuid ''m2'') ''ann'' (Some ''bob'') 3000900 Sent"
  define row where "row = example_row ''m3'' ''bob'' (Some ''ann'') 5000100 Sent"
  note defs = m1_def a_def b_def row_def example_message_def example_row_def
  have rel: "isRelevantMessage ''ann'' ''bob'' row"
    by (simp add: defs isRelevantMessage_def)
  have p: "msg_id m1 \<in> msg_id ` set [m1]" by simp
  have n: "msg_id a \<notin> msg_id ` set [m1]" by (simp add: defs)
  have m: "mset [a, b] = mset [b, a]" by (simp add: add_mset_commute)
  have d1: "distinct (map msg_id [a, b])" by (simp add: defs)
  have d2: "distinct (map (\<lambda>m. created_at m div 1000) [a, b])" by (simp add: defs)
  have s1: "sort_key (\<lambda>m. created_at m div 1000) ([m1] @ [a]) = [m1, a]"
    by (simp add: defs)
  have run: "add_messages [a, b] [m1] = [m1, b, a]"
    by (simp add: defs add_messages_def add_message_def js_sort_def by_created_at_def getTime_def)
  have same: "msg_id (a\<lparr>status := Seen\<rparr>) = msg_id a" by simp
  note at_a = insert_event_idempotent [of "''ann''" "''bob''" row a "[m1]"
      "a\<lparr>status := Seen\<rparr>" "[a, b]" "[b, a]"]
  note at_m1 = insert_event_idempotent [of "''ann''" "''bob''" row m1 "[m1]" m1 "[a, b]" "[b, a]"]
  from at_a rel have h1:
    "fst (on_insert ''ann'' ''bob'' row (Response (Some a) None) [m1]) = add_message a [m1]"
    by blast
  from at_a same have h2:
    "add_message (a\<lparr>status := Seen\<rparr>) (add_message a [m1]) = add_message a [m1]"
    by blast
  from at_a n have h3: "add_message a [m1] = sort_key (\<lambda>m. created_at m div 1000) ([m1] @ [a])"
    by blast
  from at_a m d1 d2 have h4: "add_messages [a, b] [m1] = add_messages [b, a] [m1]"
    by blast
  from at_m1 p have h5: "add_message m1 [m1] = [m1]"
    by blast
  have h6: "add_message a [m1] = [m1, a]" using h3 s1 by simp
  have h7: "add_messages [b, a] [m1] = [m1, b, a]" using h4 run by simp
  from rel p n m d1 d2 same h1 h2 h5 h6 h7 run
  show ?thesis
    unfolding Let_def m1_def [symmetric] a_def [symmetric] b_def [symmetric] row_def [symmetric]
    by simp
qed

text \<open>
  Claim C6 as stated fails for two messages created within one millisecond: each
  arrival order leaves them in that order, so the final list depends on it, and
  one of the two lists has the later message first.
\<close>

theorem insert_order_counterexample:
  "add_messages
     [example_message (Uuid ''m1'') ''ann'' (Some ''bob'') 1000900 Sent,
      example_message (Uuid ''m2'') ''bob'' (Some ''ann'') 1000100 Sent] [] \<noteq>
   add_messages
     [example_message (Uuid ''m2'') ''bob'' (Some ''ann'') 1000100 Sent,
      example_message (Uuid ''m1'') ''ann'' (Some ''bob'') 1000900 Sent] [] \<and>
   add_messages
     [example_message (Uuid ''m1'') ''ann'' (Some ''bob'') 1000900 Sent,
      example_message (Uuid ''m2'') ''bob'' (Some ''ann'') 1000100 Sent] [] =
     [example_message (Uuid ''m1'') ''ann'' (Some ''bob'') 1000900 Sent,
      example_message (Uuid ''m2'') ''bob'' (Some ''ann'') 1000100 Sent]"
  by (simp add: example_message_def add_messages_def add_message_def js_sort_def
      by_created_at_def getTime_def)

subsection \<open>A send that fails\<close>

lemma sendMessage_failure:
  assumes "error (insert_resp env (send_payload body u r env)) = Some e"
  shows "sendMessage body u r cu env prev =
           (filter (\<lambda>msg. msg_id msg \<noteq> Temp (id_clock env)) prev, Inl e,
            [Select_profile u, Rpc_get_or_create_conversation u r,
             Insert_message (send_payload body u r env)])"
  using assms by (simp add: sendMessage_def optimisticMessage_def Let_def)

lemma optimistic_id: "msg_id (optimisticMessage body u r env) = Temp (id_clock env)"
  by (simp add: optimisticMessage_def Let_def)

text \<open>
  The list a send starts from holds no entry with a temporary id, and the lists of
  the store stay so: the history that is loaded, the list after a realtime event,
  and the list after a send that ended, with an error or with the stored record.
\<close>

lemma settled_no_temp: "settled prev \<Longrightarrow> Temp t \<notin> msg_id ` set prev"
  by (induction prev) (auto simp: settled_def split: ident.splits)

lemma settled_load_history:
  assumes "settled (messages st)"
  shows "settled (messages (load_history me peer profiles rows st))"
  using assms
  by (simp add: load_history_def fetchMessages_def truthy_def settled_def list_all_iff joined_def)

lemma settled_add_message:
  assumes "settled prev" and "msg_id d = Uuid i"
  shows "settled (add_message d prev)"
  using assms by (simp add: add_message_def settled_def list_all_iff set_js_sort)

lemma settled_on_update:
  assumes "settled prev" and "data resp = Some d \<longrightarrow> msg_id d = Uuid i"
  shows "settled (on_update me peer row resp prev)"
  using assms
  by (auto simp: on_update_def settled_def list_all_iff split: option.splits)

lemma settled_send_success:
  assumes "settled prev"
    and "insert_resp env (send_payload body u r env) =
           Response (Some (joined profiles stored)) None"
  shows "settled (fst (sendMessage body u r cu env prev))"
  using assms
  by (auto simp: sendMessage_def optimisticMessage_def Let_def settled_def list_all_iff
      joined_def)

text \<open>
  Claim C4. When the insert of a send fails, and no entry of the list the send
  started from carries the temporary id of its placeholder (as in every list with no
  send under way), the list afterwards is the list before the send, which is the
  list shown during the send without the placeholder; the placeholder is gone, and
  the error is the outcome handed to the caller.
\<close>

theorem send_failure_rolls_back:
  assumes "error (insert_resp env (send_payload body u r env)) = Some e"
      and "Temp (id_clock env) \<notin> msg_id ` set prev"
  shows "sendMessage body u r cu env prev =
           (prev, Inl e,
            [Select_profile u, Rpc_get_or_create_conversation u r,
             Insert_message (send_payload body u r env)]) \<and>
         fst (sendMessage body u r cu env prev) =
           remove1 (optimisticMessage body u r env) (prev @ [optimisticMessage body u r env]) \<and>
         optimisticMessage body u r env \<notin> set (fst (sendMessage body u r cu env prev))"
proof -
  let ?opt = "optimisticMessage body u r env"
  have keep: "filter (\<lambda>msg. msg_id msg \<noteq> Temp (id_clock env)) prev = prev"
    using assms(2) by (intro filter_True) (metis imageI)
  have absent: "?opt \<notin> set prev"
    using assms(2) optimistic_id [of body u r env] by (metis imageI)
  then have "remove1 ?opt (prev @ [?opt]) = prev"
    by (simp add: remove1_append)
  with keep absent show ?thesis
    by (simp add: sendMessage_failure [OF assms(1)])
qed

theorem send_failure_rolls_back_witness:
  "(let prev = [example_message (Uuid ''m1'') ''ann'' (Some ''bob'') 1000 Seen,
                example_message (Uuid ''m2'') ''bob'' (Some ''ann'') 6000 Sent]
    in error (insert_resp (failing_env 7) (send_payload ''yo'' ''ann'' ''bob'' (failing_env 7)))
         = Some ''insert failed'' \<and>
       settled prev \<and>
       Temp (id_clock (failing_env 7)) \<notin> msg_id ` set prev \<and>
       sendMessage ''yo'' ''ann'' ''bob'' (Some ''ann'') (failing_env 7) prev =
         (prev, Inl ''insert failed'',
          [Select_profile ''ann'', Rpc_get_or_create_conversation ''ann'' ''bob'',
           Insert_message (send_payload ''yo'' ''ann'' ''bob'' (failing_env 7))]))"
proof -
  let ?prev = "[example_message (Uuid ''m1'') ''ann'' (Some ''bob'') 1000 Seen,
                example_message (Uuid ''m2'') ''bob'' (Some ''ann'') 6000 Sent]"
  have e: "error (insert_resp (failing_env 7) (send_payload ''yo'' ''ann'' ''bob'' (failing_env 7)))
         = Some ''insert failed''"
    by (simp add: failing_env_def)
  have s: "settled ?prev"
    by (simp add: settled_def example_message_def)
  then have fresh: "Temp (id_clock (failing_env 7)) \<notin> msg_id ` set ?prev"
    by (rule settled_no_temp)
  from send_failure_rolls_back [OF e fresh, of "Some ''ann''"] e s fresh
  show ?thesis
    by (simp add: Let_def)
qed

subsection \<open>The history that is loaded\<close>

text \<open>
  What the query returns: at most 100 rows of the thread, in ascending order of
  creation, and no row of the thread it leaves out was created before one it returns.
\<close>

lemma select_thread_capped_sorted:
  "length (select_thread me peer rows) \<le> 100 \<and>
   sorted (map created_at (select_thread me peer rows)) \<and>
   set (select_thread me peer rows) \<subseteq> {m \<in> set rows. thread_filter me peer m}"
proof -
  let ?all = "sort_key created_at (filter (thread_filter me peer) rows)"
  have "sorted (map created_at ?all)" by simp
  then have "sorted (take 100 (map created_at ?all))"
    by (rule sorted_wrt_take)
  moreover have "set (take 100 ?all) \<subseteq> set ?all" by (rule set_take_subset)
  ultimately show ?thesis by (auto simp: select_thread_def take_map)
qed

lemma select_thread_earliest:
  assumes "m \<in> set (select_thread me peer rows)"
    and "m' \<in> set rows" and "thread_filter me peer m'"
    and "m' \<notin> set (select_thread me peer rows)"
  shows "created_at m \<le> created_at m'"
proof -
  let ?key = "created_at :: uuid message \<Rightarrow> timestamptz"
  let ?all = "sort_key ?key (filter (thread_filter me peer) rows)"
  have split: "?all = take 100 ?all @ drop 100 ?all" by simp
  have "sorted (map ?key ?all)" by simp
  then have "sorted (map ?key (take 100 ?all) @ map ?key (drop 100 ?all))"
    by (metis split map_append)
  then have le: "\<forall>x \<in> set (take 100 ?all). \<forall>y \<in> set (drop 100 ?all). ?key x \<le> ?key y"
    by (auto simp: sorted_append)
  from assms(2,3) have "m' \<in> set ?all" by simp
  then have "m' \<in> set (take 100 ?all) \<union> set (drop 100 ?all)"
    by (metis split set_append)
  with assms(4) have "m' \<in> set (drop 100 ?all)" by (simp add: select_thread_def)
  moreover from assms(1) have "m \<in> set (take 100 ?all)" by (simp add: select_thread_def)
  ultimately show ?thesis using le by blast
qed

lemma thread_of_filter:
  "filter (thread_filter a b) (thread_of a b n) = thread_of a b n"
  by (rule filter_True) (auto simp: thread_of_def thread_filter_def example_row_def)

lemma thread_of_sorted:
  "sorted (map created_at (thread_of a b n))"
proof -
  have "map created_at (thread_of a b n) = map (\<lambda>k. 1000 * int k) [0..<n]"
    by (simp add: thread_of_def example_row_def comp_def)
  moreover have "sorted (map (\<lambda>k. 1000 * int k) [0..<n])"
    by (simp add: sorted_map sorted_wrt_iff_nth_less)
  ultimately show ?thesis by simp
qed

lemma select_thread_of:
  "select_thread a b (thread_of a b n) = take 100 (thread_of a b n)"
  by (simp add: select_thread_def thread_of_filter sort_key_id_if_sorted [OF thread_of_sorted])

lemma take_thread_of: "k \<le> n \<Longrightarrow> take k (thread_of a b n) = thread_of a b k"
  by (simp add: thread_of_def take_map)

text \<open>
  Claim C3 on a thread of 101 messages created at the milliseconds 0 to 100: the
  history that is loaded holds the messages of the milliseconds 0 to 99, in that
  order, and not the most recent one.
\<close>

theorem load_history_keeps_oldest:
  "map created_at (messages (load_history ''ann'' ''bob'' [] (thread_of ''ann'' ''bob'' 101)
      \<lparr>messages = [], loading = True\<rparr>)) = map (\<lambda>k. 1000 * int k) [0..<100] \<and>
   100000 \<in> created_at ` set (thread_of ''ann'' ''bob'' 101) \<and>
   100000 \<notin> created_at ` set (messages (load_history ''ann'' ''bob'' []
      (thread_of ''ann'' ''bob'' 101) \<lparr>messages = [], loading = True\<rparr>))"
proof -
  have shown: "messages (load_history ''ann'' ''bob'' [] (thread_of ''ann'' ''bob'' 101)
      \<lparr>messages = [], loading = True\<rparr>) = map (joined []) (thread_of ''ann'' ''bob'' 100)"
    by (simp add: load_history_def fetchMessages_def truthy_def select_thread_of take_thread_of)
  have times: "map created_at (map (joined []) (thread_of ''ann'' ''bob'' 100)) =
      map (\<lambda>k. 1000 * int k) [0..<100]"
    by (simp add: thread_of_def joined_def example_row_def comp_def)
  have newest: "100000 \<in> created_at ` set (thread_of ''ann'' ''bob'' 101)"
    by (simp add: thread_of_def example_row_def image_iff)
  have "created_at ` set (map (joined []) (thread_of ''ann'' ''bob'' 100)) =
      set (map (\<lambda>k. 1000 * int k) [0..<100])"
    using times by (metis set_map)
  then have gone: "100000 \<notin> created_at ` set (map (joined []) (thread_of ''ann'' ''bob'' 100))"
    by auto
  from shown times newest gone show ?thesis by simp
qed

section \<open>The status of a message\<close>

lemma status_rank_le_seen: "status_rank s \<le> status_rank Seen"
  by (cases s) simp_all

lemma find_map_same_id:
  assumes "\<And>m. msg_id (g m) = msg_id m"
  shows "find (\<lambda>m. msg_id m = i) (map g ms) = map_option g (find (\<lambda>m. msg_id m = i) ms)"
  by (induction ms) (simp_all add: assms)

lemma status_of_seen:
  assumes "status_of ms i = Some s"
  shows "\<exists>s'. status_of (mark_messages_as_seen now a b ms) i = Some s' \<and>
              status_rank s \<le> status_rank s'"
proof -
  let ?g = "\<lambda>m. if seen_target a b m then m\<lparr>seen_at := Some now, status := Seen\<rparr> else m"
  from assms obtain m where m: "find (\<lambda>m. msg_id m = i) ms = Some m" and s: "status m = s"
    by (auto simp: status_of_def)
  have "find (\<lambda>m. msg_id m = i) (map ?g ms) = map_option ?g (find (\<lambda>m. msg_id m = i) ms)"
    by (rule find_map_same_id) simp
  with m have "status_of (mark_messages_as_seen now a b ms) i = Some (status (?g m))"
    by (simp add: status_of_def mark_messages_as_seen_def)
  moreover have "status_rank s \<le> status_rank (status (?g m))"
    using s status_rank_le_seen [of s] by simp
  ultimately show ?thesis by blast
qed

lemma status_of_delivered:
  assumes "status_of ms i = Some s"
  shows "\<exists>s'. status_of (mark_messages_as_delivered now r ms) i = Some s' \<and>
              status_rank s \<le> status_rank s'"
proof -
  let ?g = "\<lambda>m. if delivered_target r m then m\<lparr>status := Delivered, delivered_at := Some now\<rparr> else m"
  from assms obtain m where m: "find (\<lambda>m. msg_id m = i) ms = Some m" and s: "status m = s"
    by (auto simp: status_of_def)
  have "find (\<lambda>m. msg_id m = i) (map ?g ms) = map_option ?g (find (\<lambda>m. msg_id m = i) ms)"
    by (rule find_map_same_id) simp
  with m have "status_of (mark_messages_as_delivered now r ms) i = Some (status (?g m))"
    by (simp add: status_of_def mark_messages_as_delivered_def)
  moreover have "status_rank s \<le> status_rank (status (?g m))"
    using s by (simp add: delivered_target_def)
  ultimately show ?thesis by blast
qed

lemma status_of_insert:
  assumes "status_of ms i = Some s"
  shows "status_of (ms @ [x]) i = Some s"
  using assms by (auto simp: status_of_def find_snoc)

lemma db_step_forward:
  assumes "db_step profiles ms ms'" and "status_of ms i = Some s"
  shows "\<exists>s'. status_of ms' i = Some s' \<and> status_rank s \<le> status_rank s'"
  using assms
proof (cases rule: db_step.cases)
  case (seen now sender_id viewer_id)
  with assms(2) show ?thesis by (simp add: status_of_seen)
next
  case (delivered now recipient)
  with assms(2) show ?thesis by (simp add: status_of_delivered)
next
  case (insert fresh p now)
  with assms(2) show ?thesis by (simp add: status_of_insert)
qed

lemma db_steps_forward:
  assumes "(db_step profiles)\<^sup>*\<^sup>* ms ms'" and "status_of ms i = Some s"
  shows "\<exists>s'. status_of ms' i = Some s' \<and> status_rank s \<le> status_rank s'"
  using assms
proof (induction rule: rtranclp_induct)
  case base
  then show ?case by simp
next
  case (step y z)
  then obtain s1 where s1: "status_of y i = Some s1" and le1: "status_rank s \<le> status_rank s1"
    by blast
  from db_step_forward [OF step.hyps(2) s1] obtain s2
    where "status_of z i = Some s2" and "status_rank s1 \<le> status_rank s2" by blast
  with le1 show ?case by (meson order_trans)
qed

lemma delivered_changes_sent_only:
  assumes "k < length ms" and "mark_messages_as_delivered now r ms ! k \<noteq> ms ! k"
  shows "status (ms ! k) = Sent \<and> status (mark_messages_as_delivered now r ms ! k) = Delivered"
  using assms
  by (auto simp: mark_messages_as_delivered_def delivered_target_def split: if_splits)

lemma seen_sets_seen_only:
  assumes "k < length ms" and "status (mark_messages_as_seen now a b ms ! k) \<noteq> status (ms ! k)"
  shows "status (mark_messages_as_seen now a b ms ! k) = Seen"
  using assms
  by (auto simp: mark_messages_as_seen_def split: if_splits)

lemma inserted_row_status:
  "ins_status p = Sent \<Longrightarrow> status (inserted_row profiles fresh now p) \<in> {Sent, Delivered}"
  by (simp add: inserted_row_def auto_mark_delivered_def new_row_def)

lemma inserted_row_status_exact:
  "status (inserted_row profiles fresh now (send_payload body u r env)) =
     (if list_ex (\<lambda>q. profile_id q = r \<and> (\<exists>t. last_seen q = Some t \<and> now - 300000000 < t))
           profiles
      then Delivered else Sent)"
proof -
  have "recently_active now (Some r) q \<longleftrightarrow>
      profile_id q = r \<and> (\<exists>t. last_seen q = Some t \<and> now - 300000000 < t)" for q
    by (auto simp: recently_active_def five_minutes_def split: option.splits)
  then have "recently_active now (Some r) =
      (\<lambda>q. profile_id q = r \<and> (\<exists>t. last_seen q = Some t \<and> now - 300000000 < t))"
    by (intro ext)
  then show ?thesis
    by (simp add: inserted_row_def auto_mark_delivered_def new_row_def send_payload_def)
qed

lemma sendMessage_success:
  assumes "insert_resp env (send_payload body u r env) = Response (Some sentMessage) None"
  shows "fst (sendMessage body u r cu env prev) =
           map (\<lambda>msg. if msg_id msg = Temp (id_clock env) then sentMessage else msg) prev @
           [sentMessage]"
  using assms by (simp add: sendMessage_def optimisticMessage_def Let_def)


lemma joined_fields [simp]:
  "msg_id (joined profiles m) = Uuid (msg_id m)" "status (joined profiles m) = status m"
  by (simp_all add: joined_def)

lemma send_success_forward:
  assumes resp: "insert_resp env (send_payload body u r env) =
      Response (Some (joined profiles (inserted_row profiles fresh now (send_payload body u r env)))) None"
    and inv: "placeholders_sending prev"
  shows "placeholders_sending (fst (sendMessage body u r cu env prev)) \<and>
         (\<forall>k \<le> length prev.
            status_rank (status ((prev @ [optimisticMessage body u r env]) ! k)) \<le>
            status_rank (status (fst (sendMessage body u r cu env prev) ! k)))"
proof -
  let ?sent = "joined profiles (inserted_row profiles fresh now (send_payload body u r env))"
  let ?f = "\<lambda>msg. if msg_id msg = Temp (id_clock env) then ?sent else msg"
  have final: "fst (sendMessage body u r cu env prev) = map ?f prev @ [?sent]"
    using resp by (rule sendMessage_success)
  have "placeholders_sending (map ?f prev @ [?sent])"
    using inv by (auto simp: placeholders_sending_def list_all_iff)
  moreover have "status_rank (status ((prev @ [optimisticMessage body u r env]) ! k)) \<le>
      status_rank (status ((map ?f prev @ [?sent]) ! k))" if "k \<le> length prev" for k
  proof (cases "k < length prev")
    case True
    then have "prev ! k \<in> set prev" by simp
    with inv have "msg_id (prev ! k) = Temp (id_clock env) \<longrightarrow> status (prev ! k) = Sending"
      by (auto simp: placeholders_sending_def list_all_iff)
    with True show ?thesis by (auto simp: nth_append)
  next
    case False
    with that have "k = length prev" by simp
    then show ?thesis by (simp add: nth_append optimisticMessage_def Let_def)
  qed
  ultimately show ?thesis using final by simp
qed

lemma send_success_no_temp:
  assumes "insert_resp env (send_payload body u r env) = Response (Some sentMessage) None"
    and "Temp (id_clock env) \<notin> msg_id ` set prev"
  shows "fst (sendMessage body u r cu env prev) = prev @ [sentMessage]"
proof -
  have "map (\<lambda>msg. if msg_id msg = Temp (id_clock env) then sentMessage else msg) prev = prev"
    using assms(2) by (intro map_idI) (metis imageI)
  then show ?thesis
    using sendMessage_success [OF assms(1)] by simp
qed

text \<open>
  Claim C1, as amended. Along every sequence of steps of the table (calls of the two
  procedures, inserts of sent messages) the status held for a message id never
  moves to an earlier place of the chain sending, sent, delivered, seen.
  \<^verbatim>\<open>mark_messages_as_delivered\<close> changes only rows whose status is \<^verbatim>\<open>'sent'\<close>, to
  \<^verbatim>\<open>'delivered'\<close>; a status \<^verbatim>\<open>mark_messages_as_seen\<close> changes becomes \<^verbatim>\<open>'seen'\<close>.
  When a send succeeds the client replaces the placeholder it made, which is
  \<^verbatim>\<open>'sending'\<close>, by the stored record. The status of that record is \<^verbatim>\<open>'delivered'\<close>
  when the profile of the recipient has a \<^verbatim>\<open>last_seen\<close> later than five minutes
  (300000000 microseconds) before the insert, and \<^verbatim>\<open>'sent'\<close> otherwise. The entries
  replaced are those with the placeholder's temporary id: in a list with no such
  entry the placeholder alone, and in a list whose temporary entries are all
  \<^verbatim>\<open>'sending'\<close> no entry's status moves backward and the temporary entries afterwards
  are still all \<^verbatim>\<open>'sending'\<close>.
\<close>

theorem status_moves_forward:
  "((db_step profiles)\<^sup>*\<^sup>* ms ms' \<and> status_of ms i = Some s \<longrightarrow>
      (\<exists>s'. status_of ms' i = Some s' \<and> status_rank s \<le> status_rank s')) \<and>
   (k < length ms \<and> mark_messages_as_delivered now p ms ! k \<noteq> ms ! k \<longrightarrow>
      status (ms ! k) = Sent \<and> status (mark_messages_as_delivered now p ms ! k) = Delivered) \<and>
   (k < length ms \<and> status (mark_messages_as_seen now a b ms ! k) \<noteq> status (ms ! k) \<longrightarrow>
      status (mark_messages_as_seen now a b ms ! k) = Seen) \<and>
   (insert_resp env (send_payload body u r env) =
      Response (Some (joined profiles (inserted_row profiles fresh now (send_payload body u r env)))) None
    \<longrightarrow>
      (let sentMessage = joined profiles (inserted_row profiles fresh now (send_payload body u r env));
           optimistic = optimisticMessage body u r env;
           final = fst (sendMessage body u r cu env prev)
       in status optimistic = Sending \<and> msg_id optimistic = Temp (id_clock env) \<and>
          status sentMessage \<in> {Sent, Delivered} \<and>
          status sentMessage =
            (if list_ex (\<lambda>q. profile_id q = r \<and>
                              (\<exists>t. last_seen q = Some t \<and> now - 300000000 < t)) profiles
             then Delivered else Sent) \<and>
          final = map (\<lambda>msg. if msg_id msg = Temp (id_clock env) then sentMessage else msg)
                    (prev @ [optimistic]) \<and>
          (Temp (id_clock env) \<notin> msg_id ` set prev \<longrightarrow> final = prev @ [sentMessage]) \<and>
          (placeholders_sending prev \<longrightarrow>
             placeholders_sending final \<and>
             (\<forall>j \<le> length prev.
                status_rank (status ((prev @ [optimistic]) ! j)) \<le>
                status_rank (status (final ! j))))))"
proof -
  let ?sent = "joined profiles (inserted_row profiles fresh now (send_payload body u r env))"
  let ?recent = "list_ex (\<lambda>q. profile_id q = r \<and>
      (\<exists>t. last_seen q = Some t \<and> now - 300000000 < t)) profiles"
  have table: "\<exists>s'. status_of ms' i = Some s' \<and> status_rank s \<le> status_rank s'"
    if "(db_step profiles)\<^sup>*\<^sup>* ms ms'" and "status_of ms i = Some s"
    using that by (rule db_steps_forward)
  have del: "status (ms ! k) = Sent \<and> status (mark_messages_as_delivered now p ms ! k) = Delivered"
    if "k < length ms" and "mark_messages_as_delivered now p ms ! k \<noteq> ms ! k"
    using that by (rule delivered_changes_sent_only)
  have seen: "status (mark_messages_as_seen now a b ms ! k) = Seen"
    if "k < length ms" and "status (mark_messages_as_seen now a b ms ! k) \<noteq> status (ms ! k)"
    using that by (rule seen_sets_seen_only)
  have opt: "status (optimisticMessage body u r env) = Sending \<and>
      msg_id (optimisticMessage body u r env) = Temp (id_clock env)"
    by (simp add: optimisticMessage_def Let_def)
  have exact: "status ?sent = (if ?recent then Delivered else Sent)"
    using inserted_row_status_exact [of profiles fresh now body u r env] by simp
  have st: "status ?sent \<in> {Sent, Delivered}"
    unfolding exact by simp
  have final: "fst (sendMessage body u r cu env prev) =
      map (\<lambda>msg. if msg_id msg = Temp (id_clock env) then ?sent else msg)
        (prev @ [optimisticMessage body u r env])"
    if "insert_resp env (send_payload body u r env) = Response (Some ?sent) None"
    using sendMessage_success [OF that] opt by simp
  have alone: "fst (sendMessage body u r cu env prev) = prev @ [?sent]"
    if "insert_resp env (send_payload body u r env) = Response (Some ?sent) None"
      and "Temp (id_clock env) \<notin> msg_id ` set prev"
    using that by (rule send_success_no_temp)
  have fwd: "placeholders_sending (fst (sendMessage body u r cu env prev)) \<and>
      (\<forall>j \<le> length prev.
         status_rank (status ((prev @ [optimisticMessage body u r env]) ! j)) \<le>
         status_rank (status (fst (sendMessage body u r cu env prev) ! j)))"
    if "insert_resp env (send_payload body u r env) = Response (Some ?sent) None"
      and "placeholders_sending prev"
    using that by (rule send_success_forward)
  from table del seen opt st exact final alone fwd show ?thesis
    unfolding Let_def by blast
qed

theorem status_moves_forward_witness:
  "(let profiles = [example_profile ''bob'' (Some 100000001)];
        stale = [example_profile ''bob'' (Some 100000000)];
        ms = [example_row ''m1'' ''ann'' (Some ''bob'') 10000 Sent];
        ms' = mark_messages_as_seen 30000 ''ann'' ''bob''
                (mark_messages_as_delivered 20000 ''bob'' ms);
        env = storing_env profiles ''m5'' 400000;
        env' = storing_env stale ''m5'' 400000;
        prev = [example_message (Uuid ''m1'') ''ann'' (Some ''bob'') 10000 Seen]
    in (db_step profiles)\<^sup>*\<^sup>* ms ms' \<and> status_of ms ''m1'' = Some Sent \<and>
       status_of ms' ''m1'' = Some Seen \<and>
       (0::nat) < length ms \<and> mark_messages_as_delivered 400000000 ''bob'' ms ! 0 \<noteq> ms ! 0 \<and>
       status (mark_messages_as_seen 400000000 ''ann'' ''bob'' ms ! 0) \<noteq> status (ms ! 0) \<and>
       insert_resp env (send_payload ''yo'' ''ann'' ''bob'' env) =
         Response (Some (joined profiles
           (inserted_row profiles ''m5'' 400000000 (send_payload ''yo'' ''ann'' ''bob'' env)))) None \<and>
       insert_resp env' (send_payload ''yo'' ''ann'' ''bob'' env') =
         Response (Some (joined stale
           (inserted_row stale ''m5'' 400000000 (send_payload ''yo'' ''ann'' ''bob'' env')))) None \<and>
       placeholders_sending prev \<and>
       Temp (id_clock env) \<notin> msg_id ` set prev \<and>
       Temp (id_clock env') \<notin> msg_id ` set prev \<and>
       placeholders_sending (fst (sendMessage ''yo'' ''ann'' ''bob'' (Some ''ann'') env prev)) \<and>
       map status (fst (sendMessage ''yo'' ''ann'' ''bob'' (Some ''ann'') env prev)) =
         [Seen, Delivered] \<and>
       map status (fst (sendMessage ''yo'' ''ann'' ''bob'' (Some ''ann'') env' prev)) =
         [Seen, Sent])"
proof -
  define profiles where "profiles = [example_profile ''bob'' (Some 100000001)]"
  define stale where "stale = [example_profile ''bob'' (Some 100000000)]"
  define ms where "ms = [example_row ''m1'' ''ann'' (Some ''bob'') 10000 Sent]"
  define ms' where
    "ms' = mark_messages_as_seen 30000 ''ann'' ''bob'' (mark_messages_as_delivered 20000 ''bob'' ms)"
  define env where "env = storing_env profiles ''m5'' 400000"
  define env' where "env' = storing_env stale ''m5'' 400000"
  define prev where "prev = [example_message (Uuid ''m1'') ''ann'' (Some ''bob'') 10000 Seen]"
  let ?sent = "joined profiles
      (inserted_row profiles ''m5'' 400000000 (send_payload ''yo'' ''ann'' ''bob'' env))"
  let ?sent' = "joined stale
      (inserted_row stale ''m5'' 400000000 (send_payload ''yo'' ''ann'' ''bob'' env'))"
  have steps: "(db_step profiles)\<^sup>*\<^sup>* ms ms'"
  proof -
    have "db_step profiles ms (mark_messages_as_delivered 20000 ''bob'' ms)"
      by (rule db_step.delivered)
    moreover have "db_step profiles (mark_messages_as_delivered 20000 ''bob'' ms) ms'"
      unfolding ms'_def by (rule db_step.seen)
    ultimately show ?thesis by (meson rtranclp.rtrancl_into_rtrancl rtranclp.rtrancl_refl)
  qed
  have s0: "status_of ms ''m1'' = Some Sent"
    by (simp add: ms_def status_of_def example_row_def)
  have s1: "status_of ms' ''m1'' = Some Seen"
    by (simp add: ms'_def ms_def status_of_def example_row_def mark_messages_as_seen_def
        mark_messages_as_delivered_def seen_target_def delivered_target_def)
  have k: "(0::nat) < length ms" by (simp add: ms_def)
  have d: "mark_messages_as_delivered 400000000 ''bob'' ms ! 0 \<noteq> ms ! 0"
    by (simp add: ms_def example_row_def mark_messages_as_delivered_def delivered_target_def)
  have e: "status (mark_messages_as_seen 400000000 ''ann'' ''bob'' ms ! 0) \<noteq> status (ms ! 0)"
    by (simp add: ms_def example_row_def mark_messages_as_seen_def seen_target_def)
  have resp: "insert_resp env (send_payload ''yo'' ''ann'' ''bob'' env) = Response (Some ?sent) None"
    by (simp add: env_def storing_env_def)
  have resp': "insert_resp env' (send_payload ''yo'' ''ann'' ''bob'' env') =
      Response (Some ?sent') None"
    by (simp add: env'_def storing_env_def)
  have inv: "placeholders_sending prev"
    by (simp add: prev_def placeholders_sending_def example_message_def)
  have fresh: "Temp (id_clock env) \<notin> msg_id ` set prev"
    and fresh': "Temp (id_clock env') \<notin> msg_id ` set prev"
    by (simp_all add: prev_def example_message_def)
  have recent: "list_ex (\<lambda>q. profile_id q = ''bob'' \<and>
      (\<exists>t. last_seen q = Some t \<and> 400000000 - 300000000 < t)) profiles"
    by (simp add: profiles_def example_profile_def)
  have old: "\<not> list_ex (\<lambda>q. profile_id q = ''bob'' \<and>
      (\<exists>t. last_seen q = Some t \<and> 400000000 - 300000000 < t)) stale"
    by (simp add: stale_def example_profile_def)
  note at_env = status_moves_forward [where profiles = profiles and ms = ms and ms' = ms' and
      i = "''m1''" and s = Sent and k = 0 and now = 400000000 and p = "''bob''" and
      a = "''ann''" and b = "''bob''" and env = env and body = "''yo''" and u = "''ann''" and
      r = "''bob''" and fresh = "''m5''" and cu = "Some ''ann''" and prev = prev]
  note at_env' = status_moves_forward [where profiles = stale and ms = ms and ms' = ms and
      i = "''m1''" and s = Sent and k = 0 and now = 400000000 and p = "''bob''" and
      a = "''ann''" and b = "''bob''" and env = env' and body = "''yo''" and u = "''ann''" and
      r = "''bob''" and fresh = "''m5''" and cu = "Some ''ann''" and prev = prev]
  from at_env steps s0 k d e resp inv fresh
  have fin: "fst (sendMessage ''yo'' ''ann'' ''bob'' (Some ''ann'') env prev) = prev @ [?sent]"
    and inv': "placeholders_sending (fst (sendMessage ''yo'' ''ann'' ''bob'' (Some ''ann'') env prev))"
    and st: "status ?sent = (if list_ex (\<lambda>q. profile_id q = ''bob'' \<and>
      (\<exists>t. last_seen q = Some t \<and> 400000000 - 300000000 < t)) profiles then Delivered else Sent)"
    unfolding Let_def by blast+
  from at_env' resp' fresh'
  have fin': "fst (sendMessage ''yo'' ''ann'' ''bob'' (Some ''ann'') env' prev) = prev @ [?sent']"
    and st': "status ?sent' = (if list_ex (\<lambda>q. profile_id q = ''bob'' \<and>
      (\<exists>t. last_seen q = Some t \<and> 400000000 - 300000000 < t)) stale then Delivered else Sent)"
    unfolding Let_def by blast+
  have r1: "map status (fst (sendMessage ''yo'' ''ann'' ''bob'' (Some ''ann'') env prev)) =
      [Seen, Delivered]"
    using st recent unfolding fin by (simp add: prev_def example_message_def)
  have r2: "map status (fst (sendMessage ''yo'' ''ann'' ''bob'' (Some ''ann'') env' prev)) =
      [Seen, Sent]"
    using st' old unfolding fin' by (simp add: prev_def example_message_def)
  from steps s0 s1 k d e resp resp' inv fresh fresh' inv' r1 r2 show ?thesis
    unfolding Let_def profiles_def [symmetric] stale_def [symmetric] ms_def [symmetric]
      ms'_def [symmetric] env_def [symmetric] env'_def [symmetric] prev_def [symmetric]
    by simp
qed

text \<open>
  Claim C1 as stated fails in its last part: when the recipient was active in the
  last five minutes the insert stores the message as delivered, and the client
  replaces the placeholder by a \<^verbatim>\<open>'delivered'\<close> record, not a \<^verbatim>\<open>'sent'\<close> one.
\<close>

theorem placeholder_replaced_by_delivered_counterexample:
  "map status (fst (sendMessage ''yo'' ''ann'' ''bob'' (Some ''ann'')
      (storing_env [example_profile ''bob'' (Some 399000000)] ''m5'' 400000) [])) = [Delivered] \<and>
   map status (fst (sendMessage ''yo'' ''ann'' ''bob'' (Some ''ann'')
      (storing_env [example_profile ''bob'' (Some 399000000)] ''m5'' 400000) [])) \<noteq> [Sent]"
  by (simp add: sendMessage_def optimisticMessage_def storing_env_def send_payload_def
      inserted_row_def auto_mark_delivered_def new_row_def recently_active_def
      example_profile_def five_minutes_def joined_def Let_def)

section \<open>Properties of the directory search\<close>

lemma to_lower_upper:
  assumes "CHR ''A'' \<le> c" and "c \<le> CHR ''Z''"
  shows "CHR ''a'' \<le> to_lower c \<and> to_lower c \<le> CHR ''z''"
proof -
  from assms have n: "65 \<le> (of_char c :: nat)" "(of_char c :: nat) \<le> 90"
    by (simp_all add: less_eq_char_def)
  then have "(of_char (char_of (of_char c + (32 :: nat))) :: nat) = of_char c + 32"
    by simp
  with n assms show ?thesis
    by (simp add: to_lower_def less_eq_char_def)
qed

lemma to_lower_not_wildcard:
  assumes "\<not> wildcard c"
  shows "to_lower c \<noteq> CHR ''%'' \<and> to_lower c \<noteq> CHR ''_'' \<and> to_lower c \<noteq> CHR 0x5C"
proof (cases "CHR ''A'' \<le> c \<and> c \<le> CHR ''Z''")
  case True
  then have "CHR ''a'' \<le> to_lower c" by (simp add: to_lower_upper)
  then show ?thesis by (auto simp: less_eq_char_def)
next
  case False
  with assms show ?thesis by (auto simp: to_lower_def wildcard_def)
qed

lemma to_lower_percent: "to_lower CHR ''%'' = CHR ''%''"
  by (simp add: to_lower_def less_eq_char_def)

text \<open>A character that stands for itself in a \<^verbatim>\<open>LIKE\<close> pattern.\<close>

lemma like_match_literal:
  assumes "p \<noteq> CHR ''%''" and "p \<noteq> CHR ''_''" and "p \<noteq> CHR 0x5C"
  shows "like_match (p # ps) s \<longleftrightarrow> (\<exists>t. s = p # t \<and> like_match ps t)"
  using assms by (cases s) auto

lemma like_match_literals:
  assumes "list_all (\<lambda>c. c \<noteq> CHR ''%'' \<and> c \<noteq> CHR ''_'' \<and> c \<noteq> CHR 0x5C) t"
  shows "like_match (t @ r) s \<longleftrightarrow> (\<exists>s'. s = t @ s' \<and> like_match r s')"
  using assms
proof (induction t arbitrary: s)
  case Nil
  then show ?case by simp
next
  case (Cons c t)
  then have c: "c \<noteq> CHR ''%''" "c \<noteq> CHR ''_''" "c \<noteq> CHR 0x5C"
    and t: "list_all (\<lambda>c. c \<noteq> CHR ''%'' \<and> c \<noteq> CHR ''_'' \<and> c \<noteq> CHR 0x5C) t"
    by simp_all
  have "like_match ((c # t) @ r) s \<longleftrightarrow> (\<exists>u. s = c # u \<and> like_match (t @ r) u)"
    using like_match_literal [OF c, of "t @ r" s] by simp
  also have "\<dots> \<longleftrightarrow> (\<exists>u. s = c # u \<and> (\<exists>s'. u = t @ s' \<and> like_match r s'))"
    using Cons.IH [OF t] by simp
  also have "\<dots> \<longleftrightarrow> (\<exists>s'. s = (c # t) @ s' \<and> like_match r s')"
    by auto
  finally show ?case .
qed

lemma like_match_percent:
  "like_match (CHR ''%'' # ps) s \<longleftrightarrow> (\<exists>xs ys. s = xs @ ys \<and> like_match ps ys)"
proof (induction s)
  case Nil
  then show ?case by simp
next
  case (Cons c s)
  have "like_match (CHR ''%'' # ps) (c # s) \<longleftrightarrow>
      like_match ps (c # s) \<or> like_match (CHR ''%'' # ps) s"
    by simp
  also have "\<dots> \<longleftrightarrow> like_match ps (c # s) \<or> (\<exists>xs ys. s = xs @ ys \<and> like_match ps ys)"
    using Cons.IH by simp
  also have "\<dots> \<longleftrightarrow> (\<exists>xs ys. c # s = xs @ ys \<and> like_match ps ys)"
  proof
    assume "like_match ps (c # s) \<or> (\<exists>xs ys. s = xs @ ys \<and> like_match ps ys)"
    then show "\<exists>xs ys. c # s = xs @ ys \<and> like_match ps ys"
    proof
      assume "like_match ps (c # s)"
      then have "c # s = [] @ (c # s) \<and> like_match ps (c # s)" by simp
      then show ?thesis by blast
    next
      assume "\<exists>xs ys. s = xs @ ys \<and> like_match ps ys"
      then obtain xs ys where "s = xs @ ys" and "like_match ps ys" by blast
      then have "c # s = (c # xs) @ ys \<and> like_match ps ys" by simp
      then show ?thesis by blast
    qed
  next
    assume "\<exists>xs ys. c # s = xs @ ys \<and> like_match ps ys"
    then obtain xs ys where eq: "c # s = xs @ ys" and m: "like_match ps ys" by blast
    show "like_match ps (c # s) \<or> (\<exists>xs ys. s = xs @ ys \<and> like_match ps ys)"
    proof (cases xs)
      case Nil
      with eq m show ?thesis by simp
    next
      case (Cons x xs')
      with eq have "s = xs' @ ys" by simp
      with m show ?thesis by blast
    qed
  qed
  finally show ?case .
qed

lemma like_match_any: "like_match ''%'' s"
  by (induction s) simp_all

lemma like_match_contains:
  assumes "list_all (\<lambda>c. c \<noteq> CHR ''%'' \<and> c \<noteq> CHR ''_'' \<and> c \<noteq> CHR 0x5C) t"
  shows "like_match (CHR ''%'' # t @ ''%'') s \<longleftrightarrow> sublist t s"
proof -
  have "like_match (CHR ''%'' # t @ ''%'') s \<longleftrightarrow>
      (\<exists>xs ys. s = xs @ ys \<and> like_match (t @ ''%'') ys)"
    by (rule like_match_percent)
  also have "\<dots> \<longleftrightarrow> (\<exists>xs ys. s = xs @ ys \<and> (\<exists>s'. ys = t @ s' \<and> like_match ''%'' s'))"
    using like_match_literals [OF assms, of "''%''"] by simp
  also have "\<dots> \<longleftrightarrow> (\<exists>xs s'. s = xs @ t @ s')"
    using like_match_any by blast
  also have "\<dots> \<longleftrightarrow> sublist t s"
    by (simp add: sublist_def)
  finally show ?thesis .
qed

lemma ilike_contains:
  assumes "list_all (\<lambda>c. \<not> wildcard c) cleanUsername"
  shows "ilike handle (postgrest_pattern (''%'' @ cleanUsername @ ''%'')) \<longleftrightarrow>
         contains_ci handle cleanUsername"
proof -
  have nostar: "map (\<lambda>c. if c = CHR ''*'' then CHR ''%'' else c) cleanUsername = cleanUsername"
    using assms by (intro map_idI) (auto simp: list_all_iff wildcard_def)
  have lit: "list_all (\<lambda>c. c \<noteq> CHR ''%'' \<and> c \<noteq> CHR ''_'' \<and> c \<noteq> CHR 0x5C)
      (map to_lower cleanUsername)"
    using assms by (simp add: list_all_iff to_lower_not_wildcard)
  have "map to_lower (postgrest_pattern (''%'' @ cleanUsername @ ''%'')) =
      CHR ''%'' # map to_lower cleanUsername @ ''%''"
    by (simp add: postgrest_pattern_def nostar to_lower_percent)
  then have "ilike handle (postgrest_pattern (''%'' @ cleanUsername @ ''%'')) \<longleftrightarrow>
      like_match (CHR ''%'' # map to_lower cleanUsername @ ''%'') (map to_lower handle)"
    by (simp only: ilike_def)
  also have "\<dots> \<longleftrightarrow> sublist (map to_lower cleanUsername) (map to_lower handle)"
    using lit by (rule like_match_contains)
  finally show ?thesis by (simp only: contains_ci_def)
qed

lemma search_profiles_contains:
  assumes "list_all (\<lambda>c. \<not> wildcard c) cleanUsername"
  shows "search_profiles collation cleanUsername profiles =
           take 10 (sort_key (\<lambda>p. collation (username p))
             (filter (\<lambda>p. contains_ci (username p) cleanUsername) profiles))"
  by (simp only: search_profiles_def ilike_contains [OF assms])

lemma search_profiles_bounds:
  "length (search_profiles collation cleanUsername profiles) \<le> 10 \<and>
   sorted (map (\<lambda>p. collation (username p)) (search_profiles collation cleanUsername profiles))"
proof -
  let ?all = "sort_key (\<lambda>p. collation (username p))
      (filter (\<lambda>p. ilike (username p) (postgrest_pattern (''%'' @ cleanUsername @ ''%''))) profiles)"
  have "sorted (map (\<lambda>p. collation (username p)) ?all)" by simp
  then have "sorted (take 10 (map (\<lambda>p. collation (username p)) ?all))"
    by (rule sorted_wrt_take)
  then show ?thesis by (simp add: search_profiles_def take_map)
qed

lemma search_directory_results:
  "searchResults (search_directory collation profiles searchTerm st) =
     (if js_trim searchTerm = [] \<or> js_trim (strip_at searchTerm) = [] then []
      else search_profiles collation (strip_at searchTerm) profiles)"
  by (simp add: search_directory_def searchUserByUsername_def Let_def)

lemma selected_is_other:
  "handleSelectUser currentUserId user = Some chosen \<Longrightarrow> Some (profile_id chosen) \<noteq> currentUserId"
  by (auto simp: handleSelectUser_def split: if_splits)


text \<open>
  What holds of the search for every term: the results are at most 10 and in the
  order of the handles' collation; one leading \<^verbatim>\<open>@\<close> is stripped from the term;
  the dropdown shows no entry with the searching user's id, and neither a click nor
  the Enter key selects one. When the stripped term is not blank and has none of the
  characters \<^verbatim>\<open>%\<close>, \<^verbatim>\<open>_\<close>, \<^verbatim>\<open>*\<close> and backslash, the results are the first 10, in
  that order, of the profiles whose handle contains the term without regard to case.
\<close>

lemma search_by_handle:
  "(let results = searchResults (search_directory collation profiles searchTerm st) in
      length results \<le> 10 \<and>
      sorted (map (\<lambda>p. collation (username p)) results) \<and>
      (js_trim searchTerm \<noteq> [] \<and> js_trim (strip_at searchTerm) \<noteq> [] \<and>
       list_all (\<lambda>c. \<not> wildcard c) (strip_at searchTerm) \<longrightarrow>
         results =
           take 10 (sort_key (\<lambda>p. collation (username p))
             (filter (\<lambda>p. contains_ci (username p) (strip_at searchTerm)) profiles))) \<and>
      (\<forall>user \<in> set (filteredResults currentUserId results).
         Some (profile_id user) \<noteq> currentUserId) \<and>
      (select_by_click currentUserId results k = Some chosen \<longrightarrow>
         Some (profile_id chosen) \<noteq> currentUserId) \<and>
      (select_by_enter currentUserId results n = Some chosen \<longrightarrow>
         Some (profile_id chosen) \<noteq> currentUserId)) \<and>
   strip_at (CHR ''@'' # rest) = rest \<and>
   (c \<noteq> CHR ''@'' \<longrightarrow> strip_at (c # rest) = c # rest)"
proof -
  let ?results = "searchResults (search_directory collation profiles searchTerm st)"
  have bounds: "length ?results \<le> 10 \<and> sorted (map (\<lambda>p. collation (username p)) ?results)"
    using search_profiles_bounds [of collation "strip_at searchTerm" profiles]
    by (simp add: search_directory_results)
  have exact: "?results =
      take 10 (sort_key (\<lambda>p. collation (username p))
        (filter (\<lambda>p. contains_ci (username p) (strip_at searchTerm)) profiles))"
    if "js_trim searchTerm \<noteq> []" and "js_trim (strip_at searchTerm) \<noteq> []"
      and "list_all (\<lambda>c. \<not> wildcard c) (strip_at searchTerm)"
    using that by (simp add: search_directory_results search_profiles_contains)
  have shown: "\<forall>user \<in> set (filteredResults currentUserId ?results).
      Some (profile_id user) \<noteq> currentUserId"
    by (simp add: filteredResults_def)
  have click: "Some (profile_id chosen) \<noteq> currentUserId"
    if "select_by_click currentUserId ?results k = Some chosen"
    using that by (auto simp: select_by_click_def split: if_splits dest: selected_is_other)
  have enter: "Some (profile_id chosen) \<noteq> currentUserId"
    if "select_by_enter currentUserId ?results n = Some chosen"
    using that by (auto simp: select_by_enter_def split: if_splits dest: selected_is_other)
  have strip: "strip_at (CHR ''@'' # rest) = rest \<and>
      (c \<noteq> CHR ''@'' \<longrightarrow> strip_at (c # rest) = c # rest)"
    by (simp add: strip_at_def)
  from bounds exact shown click enter strip show ?thesis
    unfolding Let_def by blast
qed

text \<open>The search for \<^verbatim>\<open>@LI\<close> by the user \<^verbatim>\<open>Alice\<close>.\<close>

lemma search_by_handle_example:
  "(let profiles = [example_profile ''olivia'' None, example_profile ''bob'' None,
                    example_profile ''Alice'' None];
        st = \<lparr>searchResults = [], search_loading = False, search_error = None\<rparr>;
        results = searchResults (search_directory (\<lambda>x. x) profiles ''@LI'' st)
    in js_trim ''@LI'' \<noteq> [] \<and> js_trim (strip_at ''@LI'') \<noteq> [] \<and>
       list_all (\<lambda>c. \<not> wildcard c) (strip_at ''@LI'') \<and>
       results = [example_profile ''Alice'' None, example_profile ''olivia'' None] \<and>
       example_profile ''olivia'' None \<in> set (filteredResults (Some ''Alice'') results) \<and>
       select_by_click (Some ''Alice'') results 0 = Some (example_profile ''olivia'' None) \<and>
       select_by_enter (Some ''Alice'') results 1 = Some (example_profile ''olivia'' None) \<and>
       Some (profile_id (example_profile ''olivia'' None)) \<noteq> Some ''Alice'')"
proof -
  define profiles where "profiles = [example_profile ''olivia'' None, example_profile ''bob'' None,
                    example_profile ''Alice'' None]"
  define st where "st = \<lparr>searchResults = [], search_loading = False, search_error = None\<rparr>"
  define results where "results = searchResults (search_directory (\<lambda>x. x) profiles ''@LI'' st)"
  have t1: "js_trim ''@LI'' \<noteq> []" by (simp add: js_trim_def is_space_def)
  have t2: "js_trim (strip_at ''@LI'') \<noteq> []" by (simp add: js_trim_def is_space_def strip_at_def)
  have t3: "list_all (\<lambda>c. \<not> wildcard c) (strip_at ''@LI'')"
    by (simp add: strip_at_def wildcard_def)
  have sorted_matches: "take 10 (sort_key (\<lambda>p. username p)
      (filter (\<lambda>p. contains_ci (username p) (strip_at ''@LI'')) profiles)) =
      [example_profile ''Alice'' None, example_profile ''olivia'' None]"
    unfolding profiles_def by code_simp
  from search_by_handle [of "\<lambda>x. x" profiles "''@LI''" st "Some ''Alice''" 0
      "example_profile ''olivia'' None" 1 "''LI''" "CHR ''L''"] t1 t2 t3 sorted_matches
  have res: "results = [example_profile ''Alice'' None, example_profile ''olivia'' None]"
    and click: "select_by_click (Some ''Alice'') results 0 = Some (example_profile ''olivia'' None)
      \<longrightarrow> Some (profile_id (example_profile ''olivia'' None)) \<noteq> Some ''Alice''"
    unfolding Let_def results_def by simp_all
  have sel: "example_profile ''olivia'' None \<in> set (filteredResults (Some ''Alice'') results)"
    "select_by_click (Some ''Alice'') results 0 = Some (example_profile ''olivia'' None)"
    "select_by_enter (Some ''Alice'') results 1 = Some (example_profile ''olivia'' None)"
    by (simp_all add: res filteredResults_def select_by_click_def select_by_enter_def
        handleSelectUser_def example_profile_def)
  from t1 t2 t3 res sel click show ?thesis
    unfolding Let_def profiles_def [symmetric] st_def [symmetric] results_def [symmetric]
    by simp
qed

text \<open>
  Claim C7 on a handle with an underscore: the search for \<^verbatim>\<open>@john_doe\<close> among the
  handles \<^verbatim>\<open>johnxdoe\<close> and \<^verbatim>\<open>john_doe\<close> returns both, and \<^verbatim>\<open>johnxdoe\<close> does not
  contain \<^verbatim>\<open>john_doe\<close>: the term goes into the \<^verbatim>\<open>ILIKE\<close> pattern as it is, where
  the underscore stands for any one character.
\<close>

theorem search_underscore_matches_any:
  "map username (searchResults (search_directory (\<lambda>x. x)
      [example_profile ''johnxdoe'' None, example_profile ''john_doe'' None] ''@john_doe''
      \<lparr>searchResults = [], search_loading = False, search_error = None\<rparr>)) =
     [''john_doe'', ''johnxdoe''] \<and>
   strip_at ''@john_doe'' = ''john_doe'' \<and>
   \<not> contains_ci ''johnxdoe'' (strip_at ''@john_doe'')"
  by (simp add: search_directory_def searchUserByUsername_def search_profiles_def ilike_def
      postgrest_pattern_def example_profile_def contains_ci_def strip_at_def js_trim_def
      is_space_def to_lower_def less_eq_char_def sublist_code(3) Let_def)

section \<open>Properties of the session bootstrap\<close>
















end
